theory Spec2Isabelle
  imports Complex_Main "HOL-Library.Log_Nat"
begin

section \<open>JavaScript numbers\<close>

text \<open>
  Every JavaScript number of the program is an IEEE 754 binary64 value. All of them are
  finite here, so a number is modelled by the rational it denotes, and each arithmetic
  operation by the exact operation followed by \<open>fl\<close>, the rounding to the nearest binary64
  value (53 significant bits, ties to the even significand). The exponent is left
  unbounded: the magnitudes the program produces from channels in 0..255 stay far inside
  the normal range of binary64 (no overflow, no subnormal), where this is what the
  hardware computes. Comparisons, \<open>Math.max\<close>, \<open>Math.min\<close> and \<open>Math.abs\<close> are exact.
\<close>

definition expo :: "rat \<Rightarrow> int" where
  \<comment> \<open>the binary exponent \<open>\<lfloor>log\<^sub>2 \<bar>x\<bar>\<rfloor>\<close> of a nonzero rational\<close>
  "expo x = (if 1 \<le> \<bar>x\<bar> then bitlen \<lfloor>\<bar>x\<bar>\<rfloor> - 1
             else - bitlen (\<lceil>1 / \<bar>x\<bar>\<rceil> - 1))"

definition rne :: "rat \<Rightarrow> int" where
  \<comment> \<open>round to the nearest integer, ties to even\<close>
  "rne y = (let n = \<lfloor>y\<rfloor>; f = y - of_int n
            in if f < 1/2 then n else if 1/2 < f then n + 1
               else if even n then n else n + 1)"

definition fl :: "rat \<Rightarrow> rat" where
  "fl x = (if x = 0 then 0
           else let u = 2 powi (expo x - 52)
                in sgn x * (of_int (rne (\<bar>x\<bar> / u)) * u))"

definition fadd :: "rat \<Rightarrow> rat \<Rightarrow> rat" where "fadd x y = fl (x + y)"
definition fsub :: "rat \<Rightarrow> rat \<Rightarrow> rat" where "fsub x y = fl (x - y)"
definition fmul :: "rat \<Rightarrow> rat \<Rightarrow> rat" where "fmul x y = fl (x * y)"
definition fdiv :: "rat \<Rightarrow> rat \<Rightarrow> rat" where "fdiv x y = fl (x / y)"

definition js_round :: "rat \<Rightarrow> int" where
  \<comment> \<open>\<open>Math.round\<close>: the nearest integer, a tie going up\<close>
  "js_round x = \<lfloor>x + 1/2\<rfloor>"

section \<open>Data model\<close>

record rgb =
  rgb_r :: int
  rgb_g :: int
  rgb_b :: int

record hsl =
  hsl_h :: int
  hsl_s :: int
  hsl_l :: int

text \<open>
  An entry of \<open>hueCorrections\<close>: \<open>range\<close> is the two-element array \<open>[min, max]\<close>; a
  multiplier that the object literal does not give is \<open>undefined\<close> in the source and
  \<open>None\<close> here.
\<close>

record hueCorrection =
  range :: "int \<times> int"
  greenMultiplier :: "rat option"
  blueMultiplier :: "rat option"
  hueShift :: int

record profile =
  name :: string
  brand :: string
  software :: string
  greenReduction :: rat
  hueShift :: int
  saturationBoost :: rat
  blueReduction :: rat
  brightnessRecommendation :: "int option"
  hueCorrections :: "hueCorrection list"

section \<open>Color utility functions\<close>

definition rgbToHsl :: "int \<Rightarrow> int \<Rightarrow> int \<Rightarrow> hsl" where
  "rgbToHsl r0 g0 b0 =
    (let r = fdiv (of_int r0) 255;
         g = fdiv (of_int g0) 255;
         b = fdiv (of_int b0) 255;
         mx = max r (max g b);
         mn = min r (min g b);
         l = fdiv (fadd mx mn) 2
     in if mx = mn
        then \<lparr>hsl_h = js_round (fmul 0 360), hsl_s = js_round (fmul 0 100),
              hsl_l = js_round (fmul l 100)\<rparr>
        else
          let d = fsub mx mn;
              s = (if 1/2 < l then fdiv d (fsub (fsub 2 mx) mn) else fdiv d (fadd mx mn));
              h = (if mx = r then fdiv (fadd (fdiv (fsub g b) d) (if g < b then 6 else 0)) 6
                   else if mx = g then fdiv (fadd (fdiv (fsub b r) d) 2) 6
                   else fdiv (fadd (fdiv (fsub r g) d) 4) 6)
          in \<lparr>hsl_h = js_round (fmul h 360), hsl_s = js_round (fmul s 100),
               hsl_l = js_round (fmul l 100)\<rparr>)"

definition hue2rgb :: "rat \<Rightarrow> rat \<Rightarrow> rat \<Rightarrow> rat" where
  "hue2rgb p q t0 =
    (let t1 = (if t0 < 0 then fadd t0 1 else t0);
         t = (if 1 < t1 then fsub t1 1 else t1)
     in if t < fdiv 1 6 then fadd p (fmul (fmul (fsub q p) 6) t)
        else if t < fdiv 1 2 then q
        else if t < fdiv 2 3 then fadd p (fmul (fmul (fsub q p) (fsub (fdiv 2 3) t)) 6)
        else p)"

definition hslToRgb :: "rat \<Rightarrow> rat \<Rightarrow> rat \<Rightarrow> rgb" where
  "hslToRgb h0 s0 l0 =
    (let h = fdiv h0 360;
         s = fdiv s0 100;
         l = fdiv l0 100
     in if s = 0
        then \<lparr>rgb_r = js_round (fmul l 255), rgb_g = js_round (fmul l 255),
              rgb_b = js_round (fmul l 255)\<rparr>
        else
          let q = (if l < 1/2 then fmul l (fadd 1 s) else fsub (fadd l s) (fmul l s));
              p = fsub (fmul 2 l) q
          in \<lparr>rgb_r = js_round (fmul (hue2rgb p q (fadd h (fdiv 1 3))) 255),
               rgb_g = js_round (fmul (hue2rgb p q h) 255),
               rgb_b = js_round (fmul (hue2rgb p q (fsub h (fdiv 1 3))) 255)\<rparr>)"


definition hexDigit :: "nat \<Rightarrow> char" where
  "hexDigit d = ''0123456789abcdef'' ! d"

fun toString16 :: "nat \<Rightarrow> string" where
  \<comment> \<open>\<open>Number.prototype.toString(16)\<close> of a non-negative integer\<close>
  "toString16 n =
    (if n < 16 then [hexDigit n] else toString16 (n div 16) @ [hexDigit (n mod 16)])"

declare toString16.simps [simp del]

definition upperChar :: "char \<Rightarrow> char" where
  "upperChar c =
    (let n = (of_char c :: nat) in if 97 \<le> n \<and> n \<le> 122 then char_of (n - 32) else c)"

definition toUpperCase :: "string \<Rightarrow> string" where
  \<comment> \<open>\<open>String.prototype.toUpperCase\<close> on ASCII text\<close>
  "toUpperCase s = map upperChar s"

definition toHex :: "rat \<Rightarrow> string" where
  "toHex n =
    (let hex = toString16 (nat (max 0 (min 255 (js_round n))))
     in if length hex = 1 then ''0'' @ hex else hex)"

definition rgbToHex :: "rat \<Rightarrow> rat \<Rightarrow> rat \<Rightarrow> string" where
  "rgbToHex r g b = toUpperCase (''#'' @ toHex r @ toHex g @ toHex b)"

definition isHexChar :: "char \<Rightarrow> bool" where
  \<comment> \<open>the character class \<open>[a-f\d]\<close> under the flag \<open>i\<close>\<close>
  "isHexChar c =
    (let n = (of_char c :: nat)
     in (97 \<le> n \<and> n \<le> 102) \<or> (65 \<le> n \<and> n \<le> 70) \<or> (48 \<le> n \<and> n \<le> 57))"

definition digitValue :: "char \<Rightarrow> int" where
  "digitValue c =
    (let n = (of_char c :: nat)
     in if 97 \<le> n then int n - 87 else if 65 \<le> n then int n - 55 else int n - 48)"

definition parseInt16 :: "string \<Rightarrow> int" where
  \<comment> \<open>\<open>parseInt(s, 16)\<close> on a string of hexadecimal digits\<close>
  "parseInt16 s = foldl (\<lambda>acc c. 16 * acc + digitValue c) 0 s"

definition dropHash :: "string \<Rightarrow> string" where
  \<comment> \<open>the optional \<open>#?\<close> at the start of both patterns\<close>
  "dropHash s = (case s of [] \<Rightarrow> [] | c # t \<Rightarrow> if c = CHR ''#'' then t else s)"

definition hexToRgb :: "string \<Rightarrow> rgb option" where
  \<comment> \<open>\<open>null\<close> is \<open>None\<close>\<close>
  "hexToRgb hex =
    (case dropHash hex of
       [r1, r2, g1, g2, b1, b2] \<Rightarrow>
         if isHexChar r1 \<and> isHexChar r2 \<and> isHexChar g1 \<and> isHexChar g2 \<and>
            isHexChar b1 \<and> isHexChar b2
         then Some \<lparr>rgb_r = parseInt16 [r1, r2], rgb_g = parseInt16 [g1, g2],
                    rgb_b = parseInt16 [b1, b2]\<rparr>
         else None
     | _ \<Rightarrow> None)"

definition isValidHex :: "string \<Rightarrow> bool" where
  "isValidHex hex = (let body = dropHash hex in length body = 6 \<and> list_all isHexChar body)"

text \<open>
  The grammar \<^verbatim>\<open>^#?[0-9a-fA-F]{6}$\<close> as the specification words it: an optional leading
  \<open>#\<close> followed by exactly six hexadecimal digits. It is a set of strings, written
  without the functions above, against which they are compared.
\<close>

definition hexLanguage :: "string set" where
  "hexLanguage =
    {ds. length ds = 6 \<and> set ds \<subseteq> set ''0123456789abcdefABCDEF''} \<union>
    {CHR ''#'' # ds | ds. length ds = 6 \<and> set ds \<subseteq> set ''0123456789abcdefABCDEF''}"

section \<open>Device profiles\<close>

text \<open>
  A decimal literal of the source denotes the binary64 value nearest to it:
  \<open>0.85\<close> is \<open>fl 0.85\<close>. The earlier revision of the program has the first three
  profiles only, with the same numbers.
\<close>

definition tl_fans :: profile where
  "tl_fans =
    \<lparr>name = ''Lian Li TL Fans'', brand = ''lianli'', software = ''L-Connect'',
     greenReduction = fl 0.85, profile.hueShift = -8, saturationBoost = fl 1.15,
     blueReduction = fl 0.7, brightnessRecommendation = None,
     hueCorrections =
       [\<lparr>range = (15, 45), greenMultiplier = Some (fl 0.08), blueMultiplier = None,
         hueCorrection.hueShift = -10\<rparr>,
        \<lparr>range = (45, 65), greenMultiplier = Some (fl 0.15), blueMultiplier = None,
         hueCorrection.hueShift = -5\<rparr>,
        \<lparr>range = (270, 300), greenMultiplier = None, blueMultiplier = Some (fl 0.85),
         hueCorrection.hueShift = 5\<rparr>,
        \<lparr>range = (170, 200), greenMultiplier = Some (fl 0.9), blueMultiplier = None,
         hueCorrection.hueShift = 3\<rparr>]\<rparr>"

definition strimer :: profile where
  "strimer =
    \<lparr>name = ''Lian Li Strimer'', brand = ''lianli'', software = ''L-Connect'',
     greenReduction = fl 0.80, profile.hueShift = -10, saturationBoost = fl 1.2,
     blueReduction = fl 0.65, brightnessRecommendation = Some 40,
     hueCorrections =
       [\<lparr>range = (15, 45), greenMultiplier = Some (fl 0.10), blueMultiplier = None,
         hueCorrection.hueShift = -12\<rparr>,
        \<lparr>range = (45, 65), greenMultiplier = Some (fl 0.18), blueMultiplier = None,
         hueCorrection.hueShift = -6\<rparr>,
        \<lparr>range = (270, 300), greenMultiplier = None, blueMultiplier = Some (fl 0.82),
         hueCorrection.hueShift = 6\<rparr>,
        \<lparr>range = (170, 200), greenMultiplier = Some (fl 0.88), blueMultiplier = None,
         hueCorrection.hueShift = 4\<rparr>]\<rparr>"

definition sl_fans :: profile where
  "sl_fans =
    \<lparr>name = ''Lian Li SL Fans'', brand = ''lianli'', software = ''L-Connect'',
     greenReduction = fl 0.88, profile.hueShift = -6, saturationBoost = fl 1.1,
     blueReduction = fl 0.75, brightnessRecommendation = None,
     hueCorrections =
       [\<lparr>range = (15, 45), greenMultiplier = Some (fl 0.12), blueMultiplier = None,
         hueCorrection.hueShift = -8\<rparr>,
        \<lparr>range = (45, 65), greenMultiplier = Some (fl 0.20), blueMultiplier = None,
         hueCorrection.hueShift = -4\<rparr>,
        \<lparr>range = (270, 300), greenMultiplier = None, blueMultiplier = Some (fl 0.88),
         hueCorrection.hueShift = 4\<rparr>,
        \<lparr>range = (170, 200), greenMultiplier = Some (fl 0.92), blueMultiplier = None,
         hueCorrection.hueShift = 2\<rparr>]\<rparr>"

definition corsair_ql :: profile where
  "corsair_ql =
    \<lparr>name = ''Corsair QL Fans'', brand = ''corsair'', software = ''iCUE'',
     greenReduction = fl 0.73, profile.hueShift = -12, saturationBoost = fl 1.2,
     blueReduction = fl 0.7, brightnessRecommendation = None,
     hueCorrections =
       [\<lparr>range = (15, 45), greenMultiplier = Some (fl 0.09), blueMultiplier = None,
         hueCorrection.hueShift = -15\<rparr>,
        \<lparr>range = (45, 65), greenMultiplier = Some (fl 0.12), blueMultiplier = None,
         hueCorrection.hueShift = -8\<rparr>,
        \<lparr>range = (270, 300), greenMultiplier = None, blueMultiplier = Some (fl 0.80),
         hueCorrection.hueShift = 8\<rparr>,
        \<lparr>range = (170, 200), greenMultiplier = Some (fl 0.85), blueMultiplier = None,
         hueCorrection.hueShift = 5\<rparr>]\<rparr>"

definition corsair_ll :: profile where
  "corsair_ll =
    \<lparr>name = ''Corsair LL Fans'', brand = ''corsair'', software = ''iCUE'',
     greenReduction = fl 0.78, profile.hueShift = -10, saturationBoost = fl 1.15,
     blueReduction = fl 0.72, brightnessRecommendation = None,
     hueCorrections =
       [\<lparr>range = (15, 45), greenMultiplier = Some (fl 0.10), blueMultiplier = None,
         hueCorrection.hueShift = -12\<rparr>,
        \<lparr>range = (45, 65), greenMultiplier = Some (fl 0.15), blueMultiplier = None,
         hueCorrection.hueShift = -6\<rparr>,
        \<lparr>range = (270, 300), greenMultiplier = None, blueMultiplier = Some (fl 0.82),
         hueCorrection.hueShift = 6\<rparr>,
        \<lparr>range = (170, 200), greenMultiplier = Some (fl 0.88), blueMultiplier = None,
         hueCorrection.hueShift = 4\<rparr>]\<rparr>"

definition corsair_sp :: profile where
  "corsair_sp =
    \<lparr>name = ''Corsair SP/ML Fans'', brand = ''corsair'', software = ''iCUE'',
     greenReduction = fl 0.80, profile.hueShift = -8, saturationBoost = fl 1.1,
     blueReduction = fl 0.75, brightnessRecommendation = None,
     hueCorrections =
       [\<lparr>range = (15, 45), greenMultiplier = Some (fl 0.27), blueMultiplier = None,
         hueCorrection.hueShift = -10\<rparr>,
        \<lparr>range = (45, 65), greenMultiplier = Some (fl 0.18), blueMultiplier = None,
         hueCorrection.hueShift = -5\<rparr>,
        \<lparr>range = (270, 300), greenMultiplier = None, blueMultiplier = Some (fl 0.85),
         hueCorrection.hueShift = 5\<rparr>,
        \<lparr>range = (170, 200), greenMultiplier = Some (fl 0.90), blueMultiplier = None,
         hueCorrection.hueShift = 3\<rparr>]\<rparr>"

definition nzxt_aer :: profile where
  "nzxt_aer =
    \<lparr>name = ''NZXT Aer RGB'', brand = ''nzxt'', software = ''CAM'',
     greenReduction = fl 0.82, profile.hueShift = -8, saturationBoost = fl 1.15,
     blueReduction = fl 0.70, brightnessRecommendation = None,
     hueCorrections =
       [\<lparr>range = (15, 45), greenMultiplier = Some (fl 0.05), blueMultiplier = None,
         hueCorrection.hueShift = -12\<rparr>,
        \<lparr>range = (45, 65), greenMultiplier = Some (fl 0.10), blueMultiplier = None,
         hueCorrection.hueShift = -8\<rparr>,
        \<lparr>range = (270, 300), greenMultiplier = None, blueMultiplier = Some (fl 0.80),
         hueCorrection.hueShift = 8\<rparr>,
        \<lparr>range = (170, 200), greenMultiplier = Some (fl 0.85), blueMultiplier = None,
         hueCorrection.hueShift = 5\<rparr>]\<rparr>"

definition nzxt_kraken :: profile where
  "nzxt_kraken =
    \<lparr>name = ''NZXT Kraken'', brand = ''nzxt'', software = ''CAM'',
     greenReduction = fl 0.80, profile.hueShift = -10, saturationBoost = fl 1.2,
     blueReduction = fl 0.68, brightnessRecommendation = None,
     hueCorrections =
       [\<lparr>range = (15, 45), greenMultiplier = Some (fl 0.02), blueMultiplier = None,
         hueCorrection.hueShift = -15\<rparr>,
        \<lparr>range = (45, 65), greenMultiplier = Some (fl 0.08), blueMultiplier = None,
         hueCorrection.hueShift = -10\<rparr>,
        \<lparr>range = (270, 300), greenMultiplier = None, blueMultiplier = Some (fl 0.78),
         hueCorrection.hueShift = 10\<rparr>,
        \<lparr>range = (170, 200), greenMultiplier = Some (fl 0.82), blueMultiplier = None,
         hueCorrection.hueShift = 6\<rparr>]\<rparr>"

definition nzxt_hue :: profile where
  "nzxt_hue =
    \<lparr>name = ''NZXT Hue 2'', brand = ''nzxt'', software = ''CAM'',
     greenReduction = fl 0.85, profile.hueShift = -6, saturationBoost = fl 1.1,
     blueReduction = fl 0.75, brightnessRecommendation = None,
     hueCorrections =
       [\<lparr>range = (15, 45), greenMultiplier = Some (fl 0.08), blueMultiplier = None,
         hueCorrection.hueShift = -10\<rparr>,
        \<lparr>range = (45, 65), greenMultiplier = Some (fl 0.12), blueMultiplier = None,
         hueCorrection.hueShift = -6\<rparr>,
        \<lparr>range = (270, 300), greenMultiplier = None, blueMultiplier = Some (fl 0.85),
         hueCorrection.hueShift = 5\<rparr>,
        \<lparr>range = (170, 200), greenMultiplier = Some (fl 0.88), blueMultiplier = None,
         hueCorrection.hueShift = 4\<rparr>]\<rparr>"

definition cm_masterfan :: profile where
  "cm_masterfan =
    \<lparr>name = ''CM MasterFan'', brand = ''coolermaster'', software = ''MasterPlus+'',
     greenReduction = fl 0.85, profile.hueShift = -5, saturationBoost = fl 1.1,
     blueReduction = fl 0.78, brightnessRecommendation = None,
     hueCorrections =
       [\<lparr>range = (15, 45), greenMultiplier = Some (fl 0.15), blueMultiplier = None,
         hueCorrection.hueShift = -8\<rparr>,
        \<lparr>range = (45, 65), greenMultiplier = Some (fl 0.20), blueMultiplier = None,
         hueCorrection.hueShift = -4\<rparr>,
        \<lparr>range = (270, 300), greenMultiplier = None, blueMultiplier = Some (fl 0.88),
         hueCorrection.hueShift = 4\<rparr>,
        \<lparr>range = (170, 200), greenMultiplier = Some (fl 0.90), blueMultiplier = None,
         hueCorrection.hueShift = 2\<rparr>]\<rparr>"

definition cm_sickleflow :: profile where
  "cm_sickleflow =
    \<lparr>name = ''CM SickleFlow'', brand = ''coolermaster'', software = ''MasterPlus+'',
     greenReduction = fl 0.82, profile.hueShift = -7, saturationBoost = fl 1.15,
     blueReduction = fl 0.75, brightnessRecommendation = None,
     hueCorrections =
       [\<lparr>range = (15, 45), greenMultiplier = Some (fl 0.12), blueMultiplier = None,
         hueCorrection.hueShift = -10\<rparr>,
        \<lparr>range = (45, 65), greenMultiplier = Some (fl 0.18), blueMultiplier = None,
         hueCorrection.hueShift = -5\<rparr>,
        \<lparr>range = (270, 300), greenMultiplier = None, blueMultiplier = Some (fl 0.85),
         hueCorrection.hueShift = 5\<rparr>,
        \<lparr>range = (170, 200), greenMultiplier = Some (fl 0.88), blueMultiplier = None,
         hueCorrection.hueShift = 3\<rparr>]\<rparr>"

definition cm_halos :: profile where
  "cm_halos =
    \<lparr>name = ''CM MasterFan Halo'', brand = ''coolermaster'', software = ''MasterPlus+'',
     greenReduction = fl 0.80, profile.hueShift = -8, saturationBoost = fl 1.2,
     blueReduction = fl 0.72, brightnessRecommendation = None,
     hueCorrections =
       [\<lparr>range = (15, 45), greenMultiplier = Some (fl 0.10), blueMultiplier = None,
         hueCorrection.hueShift = -12\<rparr>,
        \<lparr>range = (45, 65), greenMultiplier = Some (fl 0.15), blueMultiplier = None,
         hueCorrection.hueShift = -6\<rparr>,
        \<lparr>range = (270, 300), greenMultiplier = None, blueMultiplier = Some (fl 0.82),
         hueCorrection.hueShift = 6\<rparr>,
        \<lparr>range = (170, 200), greenMultiplier = Some (fl 0.85), blueMultiplier = None,
         hueCorrection.hueShift = 4\<rparr>]\<rparr>"

definition DEVICE_PROFILES :: "string \<rightharpoonup> profile" where
  "DEVICE_PROFILES =
    map_of
      [(''tl-fans'', tl_fans),
       (''strimer'', strimer),
       (''sl-fans'', sl_fans),
       (''corsair-ql'', corsair_ql),
       (''corsair-ll'', corsair_ll),
       (''corsair-sp'', corsair_sp),
       (''nzxt-aer'', nzxt_aer),
       (''nzxt-kraken'', nzxt_kraken),
       (''nzxt-hue'', nzxt_hue),
       (''cm-masterfan'', cm_masterfan),
       (''cm-sickleflow'', cm_sickleflow),
       (''cm-halos'', cm_halos)]"

section \<open>Color correction algorithm\<close>

definition getColorCategory :: "int \<Rightarrow> string" where
  "getColorCategory hue =
    (if hue \<ge> 0 \<and> hue < 15 then ''red''
     else if hue \<ge> 15 \<and> hue < 45 then ''orange''
     else if hue \<ge> 45 \<and> hue < 70 then ''yellow''
     else if hue \<ge> 70 \<and> hue < 150 then ''green''
     else if hue \<ge> 150 \<and> hue < 200 then ''teal''
     else if hue \<ge> 200 \<and> hue < 260 then ''blue''
     else if hue \<ge> 260 \<and> hue < 310 then ''purple''
     else if hue \<ge> 310 \<and> hue < 340 then ''pink''
     else ''red'')"

text \<open>
  \<open>correctColor\<close> is one function in the source. Its local variables
  \<open>correctedR\<close>, \<open>correctedG\<close>, \<open>correctedB\<close> and \<open>correctedHue\<close> are the record
  \<open>corrected\<close>, and its consecutive blocks are the definitions below, in the order of
  the source: the loop that looks for a special correction, the branch that applies it,
  the branch without one, the saturation boost, the blend and the final clamp.
\<close>

record corrected =
  correctedR :: int
  correctedG :: int
  correctedB :: int
  correctedHue :: rat

fun specialCorrection :: "int \<Rightarrow> hueCorrection list \<Rightarrow> hueCorrection option" where
  "specialCorrection h [] = None"
| "specialCorrection h (correction # rest) =
    (case range correction of
       (mn, mx) \<Rightarrow> if h \<ge> mn \<and> h \<le> mx then Some correction else specialCorrection h rest)"

definition applySpecial :: "rgb \<Rightarrow> hsl \<Rightarrow> hueCorrection \<Rightarrow> corrected" where
  "applySpecial c hs sc =
    \<lparr>correctedR = rgb_r c,
     correctedG =
       (case greenMultiplier sc of
          Some m \<Rightarrow> js_round (fmul (of_int (rgb_g c)) m)
        | None \<Rightarrow> rgb_g c),
     correctedB =
       (case blueMultiplier sc of
          Some m \<Rightarrow> js_round (fmul (of_int (rgb_b c)) m)
        | None \<Rightarrow> rgb_b c),
     correctedHue =
       max 0 (min 360 (fadd (of_int (hsl_h hs)) (of_int (hueCorrection.hueShift sc))))\<rparr>"

definition applyGeneral :: "rgb \<Rightarrow> hsl \<Rightarrow> profile \<Rightarrow> corrected" where
  "applyGeneral c hs p =
    (let h = hsl_h hs;
         v0 = \<lparr>correctedR = rgb_r c, correctedG = rgb_g c, correctedB = rgb_b c,
               correctedHue = of_int h\<rparr>;
         v1 =
           (if h \<ge> 0 \<and> h \<le> 90
            then
              let warmFactor = fsub 1 (fdiv (of_int h) 90);
                  greenReductionAmount = fmul warmFactor (fsub 1 (greenReduction p))
              in v0\<lparr>correctedG := js_round (fmul (of_int (rgb_g c)) (fsub 1 greenReductionAmount)),
                    correctedHue :=
                      max 0 (fadd (of_int h) (fmul (of_int (profile.hueShift p)) warmFactor))\<rparr>
            else v0)
     in if h \<ge> 200 \<and> h \<le> 340
        then
          let coolFactor = fsub 1 \<bar>fdiv (fsub (of_int h) 270) 70\<bar>;
              blueReductionAmount = fmul coolFactor (fsub 1 (blueReduction p))
          in v1\<lparr>correctedB :=
                  js_round (fmul (of_int (rgb_b c)) (fsub 1 (fmul blueReductionAmount (fl 0.3))))\<rparr>
        else v1)"

definition boostSaturation :: "hsl \<Rightarrow> profile \<Rightarrow> rat" where
  "boostSaturation hs p = min 100 (fmul (of_int (hsl_s hs)) (saturationBoost p))"

definition significant :: "hsl \<Rightarrow> corrected \<Rightarrow> rat \<Rightarrow> bool" where
  \<comment> \<open>the test that guards the blend\<close>
  "significant hs v correctedSat \<longleftrightarrow>
     2 < \<bar>fsub (correctedHue v) (of_int (hsl_h hs))\<bar> \<or>
     5 < \<bar>fsub correctedSat (of_int (hsl_s hs))\<bar>"

definition average :: "int \<Rightarrow> int \<Rightarrow> int" where
  "average x y = js_round (fdiv (fadd (of_int x) (of_int y)) 2)"

definition blend :: "hsl \<Rightarrow> corrected \<Rightarrow> rat \<Rightarrow> rgb" where
  "blend hs v correctedSat =
    (if significant hs v correctedSat
     then
       let newRgb = hslToRgb (correctedHue v) correctedSat (of_int (hsl_l hs))
       in \<lparr>rgb_r = average (correctedR v) (rgb_r newRgb),
            rgb_g = average (correctedG v) (rgb_g newRgb),
            rgb_b = average (correctedB v) (rgb_b newRgb)\<rparr>
     else \<lparr>rgb_r = correctedR v, rgb_g = correctedG v, rgb_b = correctedB v\<rparr>)"

definition clamp255 :: "int \<Rightarrow> int" where
  "clamp255 x = max 0 (min 255 x)"

datatype error = TypeError

definition correctColor :: "rgb \<Rightarrow> string \<Rightarrow> error + rgb" where
  \<comment> \<open>reading \<open>hueCorrections\<close> of a profile that the table does not have throws\<close>
  "correctColor c deviceProfile =
    (case DEVICE_PROFILES deviceProfile of
       None \<Rightarrow> Inl TypeError
     | Some p \<Rightarrow>
         let hs = rgbToHsl (rgb_r c) (rgb_g c) (rgb_b c);
             v = (case specialCorrection (hsl_h hs) (hueCorrections p) of
                    Some sc \<Rightarrow> applySpecial c hs sc
                  | None \<Rightarrow> applyGeneral c hs p);
             correctedSat = boostSaturation hs p;
             out = blend hs v correctedSat
         in Inr \<lparr>rgb_r = clamp255 (rgb_r out), rgb_g = clamp255 (rgb_g out),
                 rgb_b = clamp255 (rgb_b out)\<rparr>)"

section \<open>Brightness\<close>

record state =
  currentDevice :: string
  currentBrand :: string
  currentBrightness :: int
  currentColor :: rgb

definition adjustedCorrected :: "state \<Rightarrow> error + rgb" where
  \<comment> \<open>the color that \<open>updateUI\<close> shows as corrected\<close>
  "adjustedCorrected st =
    (case correctColor (currentColor st) (currentDevice st) of
       Inl e \<Rightarrow> Inl e
     | Inr c \<Rightarrow>
         let brightnessFactor = fdiv (of_int (currentBrightness st)) 100
         in Inr \<lparr>rgb_r = js_round (fmul (of_int (rgb_r c)) brightnessFactor),
                 rgb_g = js_round (fmul (of_int (rgb_g c)) brightnessFactor),
                 rgb_b = js_round (fmul (of_int (rgb_b c)) brightnessFactor)\<rparr>)"

section \<open>The hue wave without rounding\<close>

text \<open>
  In exact arithmetic \<open>hue2rgb p q t\<close> is \<open>p + (q - p) * trapezoid t\<close>: the wave of
  period 1 that rises from 0 to 1 on \<open>[0, 1/6]\<close>, stays at 1 up to \<open>1/2\<close>, falls to 0 on
  \<open>[1/2, 2/3]\<close> and stays at 0 up to 1. It is written here for arguments in
  \<open>[-2/3, 4/3]\<close>, which contains every argument the conversions produce, as a function of the
  distance to the nearest centre \<open>1/3 + k\<close> of a plateau. It is not part of the program:
  the round trip through HSL is measured against it.
\<close>

definition trapezoid :: "rat \<Rightarrow> rat" where
  "trapezoid t = max 0 (min 1 (2 - 6 * min \<bar>t - 1/3\<bar> (min \<bar>t - 4/3\<bar> \<bar>t + 2/3\<bar>)))"

section \<open>Properties of the rounding\<close>

text \<open>
  The binary exponent brackets the magnitude, the rounding is odd, it is exact on every
  integer multiple of a power of two with a 53-bit multiplier, and its relative error is
  at most \<open>2\<^sup>-\<^sup>5\<^sup>3\<close>. \<open>fl_eqI\<close> recognises the result of a rounding from its 53-bit
  significand, which is how the concrete values below are checked.
\<close>

lemma expo_bounds:
  assumes "x \<noteq> 0"
  shows "2 powi expo x \<le> \<bar>x\<bar> \<and> \<bar>x\<bar> < 2 powi (expo x + 1)"
proof (cases "1 \<le> \<bar>x\<bar>")
  case True
  define n where "n = \<lfloor>\<bar>x\<bar>\<rfloor>"
  have n1: "1 \<le> n" using True by (simp add: n_def le_floor_iff)
  then have bl: "1 \<le> bitlen n" by (simp add: bitlen_alt_def)
  have e: "expo x = bitlen n - 1" using True by (simp add: expo_def n_def)
  from bitlen_bounds[of n] n1
  have b: "2 ^ nat (bitlen n - 1) \<le> n" "n < 2 ^ nat (bitlen n)" by auto
  have "(2::rat) powi (bitlen n - 1) = of_int (2 ^ nat (bitlen n - 1))"
    using bl by (simp add: power_int_def)
  also have "\<dots> \<le> of_int n" using b(1) by (simp only: of_int_le_iff)
  also have "\<dots> \<le> \<bar>x\<bar>" by (simp add: n_def)
  finally have lo: "2 powi expo x \<le> \<bar>x\<bar>" by (simp add: e)
  have "n + 1 \<le> 2 ^ nat (bitlen n)" using b(2) by simp
  then have "(of_int (n + 1) :: rat) \<le> of_int (2 ^ nat (bitlen n))"
    by (simp only: of_int_le_iff)
  moreover have "\<bar>x\<bar> < of_int (n + 1)" unfolding n_def by linarith
  moreover have "(2::rat) powi (bitlen n) = of_int (2 ^ nat (bitlen n))"
    using bl by (simp add: power_int_def)
  ultimately have "\<bar>x\<bar> < 2 powi (expo x + 1)" by (simp add: e)
  with lo show ?thesis by simp
next
  case False
  define y where "y = 1 / \<bar>x\<bar>"
  have xpos: "0 < \<bar>x\<bar>" using assms by simp
  have y1: "1 < y" using False xpos by (simp add: y_def)
  define m where "m = \<lceil>y\<rceil> - 1"
  have m1: "1 \<le> m" using y1 by (simp add: m_def less_ceiling_iff)
  then have bl: "1 \<le> bitlen m" by (simp add: bitlen_alt_def)
  have e: "expo x = - bitlen m" using False by (simp add: expo_def m_def y_def)
  from bitlen_bounds[of m] m1
  have b: "2 ^ nat (bitlen m - 1) \<le> m" "m < 2 ^ nat (bitlen m)" by auto
  have my: "of_int m < y" unfolding m_def by linarith
  have ym: "y \<le> of_int (m + 1)" by (simp add: m_def)
  have "(of_int (m + 1) :: rat) \<le> of_int (2 ^ nat (bitlen m))"
    using b(2) by (simp only: of_int_le_iff)
  with ym have yhi: "y \<le> 2 ^ nat (bitlen m)" by simp
  have "(of_int (2 ^ nat (bitlen m - 1)) :: rat) \<le> of_int m"
    using b(1) by (simp only: of_int_le_iff)
  then have "(2::rat) ^ nat (bitlen m - 1) \<le> of_int m" by simp
  with my have ylo: "2 ^ nat (bitlen m - 1) < y" by linarith
  have x_eq: "\<bar>x\<bar> = 1 / y" using xpos by (simp add: y_def)
  have p1: "(2::rat) powi expo x = 1 / 2 ^ nat (bitlen m)"
    using bl by (simp add: e power_int_def field_simps)
  have "expo x + 1 = - (bitlen m - 1)" by (simp add: e)
  then have "(2::rat) powi (expo x + 1) = 1 / 2 powi (bitlen m - 1)"
    by (simp only: power_int_minus_divide)
  also have "(2::rat) powi (bitlen m - 1) = 2 ^ nat (bitlen m - 1)"
    using bl by (intro power_int_nonneg_exp) simp
  finally have p2: "(2::rat) powi (expo x + 1) = 1 / 2 ^ nat (bitlen m - 1)" .
  have "1 / 2 ^ nat (bitlen m) \<le> 1 / y"
    using yhi y1 by (simp add: field_simps)
  moreover have "1 / y < 1 / 2 ^ nat (bitlen m - 1)"
    using ylo y1 by (simp add: field_simps)
  ultimately show ?thesis unfolding p1 p2 x_eq by blast
qed

lemma expo_unique:
  assumes "2 powi e \<le> \<bar>x\<bar>" "\<bar>x\<bar> < 2 powi (e + 1)"
  shows "expo x = e"
proof -
  have "0 < (2::rat) powi e" by simp
  with assms(1) have "0 < \<bar>x\<bar>" by linarith
  then have nz: "x \<noteq> 0" by simp
  note b = expo_bounds[OF nz]
  have "\<not> expo x < e"
  proof
    assume "expo x < e"
    then have "(2::rat) powi (expo x + 1) \<le> 2 powi e"
      by (intro power_int_increasing) auto
    with b assms show False by linarith
  qed
  moreover have "\<not> e < expo x"
  proof
    assume "e < expo x"
    then have "(2::rat) powi (e + 1) \<le> 2 powi expo x"
      by (intro power_int_increasing) auto
    with b assms show False by linarith
  qed
  ultimately show ?thesis by simp
qed

lemma expo_minus: "expo (- x) = expo x"
  by (simp add: expo_def)

lemma fl_zero: "fl 0 = 0"
  by (simp add: fl_def)

lemma fl_minus: "fl (- x) = - fl x"
  by (simp add: fl_def expo_minus Let_def)

lemma rne_bounds: "\<bar>of_int (rne y) - y\<bar> \<le> 1/2"
proof -
  define n where "n = \<lfloor>y\<rfloor>"
  have f: "of_int n \<le> y" "y < of_int n + 1" unfolding n_def by linarith+
  have "rne y = n \<or> rne y = n + 1"
    by (auto simp: rne_def Let_def n_def)
  moreover have "rne y = n \<Longrightarrow> y - of_int n \<le> 1/2"
    by (auto simp: rne_def Let_def n_def[symmetric] split: if_splits)
  moreover have "rne y = n + 1 \<Longrightarrow> 1/2 \<le> y - of_int n"
    by (auto simp: rne_def Let_def n_def[symmetric] split: if_splits)
  ultimately show ?thesis using f by (auto simp: abs_if)
qed

lemma rne_nonneg: "0 \<le> y \<Longrightarrow> 0 \<le> rne y"
  by (auto simp: rne_def Let_def)

lemma rne_eqI:
  assumes "\<bar>y - of_int m\<bar> < 1/2"
  shows "rne y = m"
proof -
  have "\<bar>(of_int (rne y) :: rat) - of_int m\<bar> < 1"
    using rne_bounds[of y] assms by linarith
  then have "\<bar>(of_int (rne y - m) :: rat)\<bar> < 1" by simp
  then have "\<bar>rne y - m\<bar> < 1" by (simp only: of_int_abs[symmetric] of_int_less_1_iff)
  then show ?thesis by simp
qed

lemma rne_of_int: "rne (of_int n) = n"
  by (rule rne_eqI) simp

lemma fl_nonneg: "0 \<le> x \<Longrightarrow> 0 \<le> fl x"
  by (auto simp: fl_def Let_def sgn_if intro!: mult_nonneg_nonneg rne_nonneg divide_nonneg_nonneg)

lemma fl_abs: "\<bar>fl x\<bar> = fl \<bar>x\<bar>"
proof (cases "0 \<le> x")
  case True
  then show ?thesis using fl_nonneg[of x] by simp
next
  case False
  then have "0 \<le> fl (- x)" by (intro fl_nonneg) simp
  then show ?thesis using False by (simp add: fl_minus abs_if)
qed

lemma fl_pos_eq:
  assumes "0 < x"
  shows "fl x = of_int (rne (x / 2 powi (expo x - 52))) * 2 powi (expo x - 52)"
  using assms by (simp add: fl_def Let_def)

lemma fl_error:
  "\<bar>fl x - x\<bar> \<le> \<bar>x\<bar> / 2 ^ 53"
proof -
  have pos: "\<bar>fl y - y\<bar> \<le> y / 2 ^ 53" if "0 < y" for y
  proof -
    define u :: rat where "u = 2 powi (expo y - 52)"
    have u0: "0 < u" by (simp add: u_def)
    have "fl y - y = (of_int (rne (y / u)) - y / u) * u"
      using that u0 by (simp add: fl_pos_eq u_def[symmetric] field_simps)
    then have "\<bar>fl y - y\<bar> = \<bar>of_int (rne (y / u)) - y / u\<bar> * u"
      using u0 by (simp add: abs_mult)
    also have "\<dots> \<le> 1/2 * u"
      using rne_bounds[of "y / u"] u0 by (intro mult_right_mono) auto
    also have "1/2 * u = 2 powi expo y / 2 ^ 53"
      by (simp add: u_def power_int_diff)
    also have "\<dots> \<le> y / 2 ^ 53"
      using expo_bounds[of y] that by (simp add: divide_right_mono)
    finally show ?thesis .
  qed
  consider "x = 0" | "0 < x" | "x < 0" by linarith
  then show ?thesis
  proof cases
    case 1 then show ?thesis by (simp add: fl_zero)
  next
    case 2 then show ?thesis using pos[of x] by simp
  next
    case 3
    then have "\<bar>fl (- x) - (- x)\<bar> \<le> (- x) / 2 ^ 53" by (intro pos) simp
    then show ?thesis using 3 by (simp add: fl_minus abs_if split: if_splits)
  qed
qed

lemma fl_error_512:
  assumes "\<bar>x\<bar> \<le> 512"
  shows "\<bar>fl x - x\<bar> \<le> 1 / 2 ^ 44"
proof -
  have "\<bar>fl x - x\<bar> \<le> \<bar>x\<bar> / 2 ^ 53" by (rule fl_error)
  also have "\<dots> \<le> 512 / 2 ^ 53" using assms by (simp add: divide_right_mono)
  also have "\<dots> = 1 / 2 ^ 44" by simp
  finally show ?thesis .
qed

lemma js_round_bounds: "of_int (js_round y) \<le> y + 1/2" "y - 1/2 < of_int (js_round y)"
  unfolding js_round_def by linarith+

lemma fl_eq_0_iff: "fl x = 0 \<longleftrightarrow> x = 0"
proof
  assume a: "fl x = 0"
  show "x = 0"
  proof (rule ccontr)
    assume "x \<noteq> 0"
    then have "\<bar>x\<bar> / 2 ^ 53 < \<bar>x\<bar>" by (simp add: field_simps)
    moreover have "\<bar>fl x - x\<bar> \<le> \<bar>x\<bar> / 2 ^ 53" by (rule fl_error)
    ultimately show False using a by simp
  qed
qed (simp add: fl_zero)

lemma fl_exact:
  assumes "\<bar>m\<bar> < 2 ^ 53"
  shows "fl (of_int m * 2 powi k) = of_int m * 2 powi k"
proof (cases "m = 0")
  case True
  then show ?thesis by (simp add: fl_zero)
next
  case False
  have pos: "fl (of_int n * 2 powi k) = of_int n * 2 powi k" if n: "0 < n" "n < 2 ^ 53" for n :: int
  proof -
    define x :: rat where "x = of_int n * 2 powi k"
    have x0: "0 < x" using n by (simp add: x_def)
    have "(of_int n :: rat) < of_int (2 ^ 53)" using n(2) by (simp only: of_int_less_iff)
    then have "x < 2 ^ 53 * 2 powi k" by (simp add: x_def)
    also have "\<dots> = 2 powi (53 + k)" by (simp add: power_int_add)
    finally have "2 powi expo x < (2::rat) powi (53 + k)"
      using expo_bounds[of x] x0 by simp
    then have "\<not> 53 + k \<le> expo x"
      using power_int_increasing[of "53 + k" "expo x" "2::rat"] by auto
    then have j: "0 \<le> k - (expo x - 52)" by simp
    define j where "j = nat (k - (expo x - 52))"
    have "x / 2 powi (expo x - 52) = of_int n * 2 powi (k - (expo x - 52))"
      by (simp add: x_def power_int_diff)
    also have "\<dots> = of_int (n * 2 ^ j)"
      using j by (simp add: j_def power_int_def)
    finally have "rne (x / 2 powi (expo x - 52)) = n * 2 ^ j"
      by (simp only: rne_of_int)
    then have "fl x = of_int (n * 2 ^ j) * 2 powi (expo x - 52)"
      using x0 by (simp add: fl_pos_eq)
    also have "\<dots> = of_int n * (2 powi (k - (expo x - 52)) * 2 powi (expo x - 52))"
      using j by (simp add: j_def power_int_def)
    also have "\<dots> = x"
      by (simp add: x_def flip: power_int_add)
    finally show ?thesis by (simp add: x_def)
  qed
  show ?thesis
  proof (cases "0 < m")
    case True
    with assms show ?thesis by (intro pos) auto
  next
    case neg: False
    with False assms have "fl (of_int (- m) * 2 powi k) = of_int (- m) * 2 powi k"
      by (intro pos) auto
    then show ?thesis using fl_minus[of "of_int m * 2 powi k"] by simp
  qed
qed

lemma fl_of_int: "\<bar>m\<bar> < 2 ^ 53 \<Longrightarrow> fl (of_int m) = of_int m"
  using fl_exact[of m 0] by simp

lemma fl_half: "\<bar>m\<bar> < 2 ^ 53 \<Longrightarrow> fl (of_int m / 2) = of_int m / 2"
  using fl_exact[of m "-1"] by (simp add: power_int_minus field_simps)

lemma fl_eqI:
  assumes "2 ^ 52 \<le> x * 2 ^ j" "x * 2 ^ j < 2 ^ 53"
  shows "fl x = of_int (rne (x * 2 ^ j)) / 2 ^ j"
proof -
  have x0: "0 < x"
  proof (rule ccontr)
    assume "\<not> 0 < x"
    then have "x * 2 ^ j \<le> 0" by (simp add: mult_le_0_iff)
    with assms(1) show False by simp
  qed
  have "2 powi (52 - int j) \<le> x"
    using assms(1) by (simp add: power_int_diff field_simps)
  moreover have "x < 2 powi (52 - int j + 1)"
    using assms(2) by (simp add: power_int_diff power_int_add field_simps)
  ultimately have e: "expo x = 52 - int j"
    using x0 by (intro expo_unique) auto
  have u: "(2::rat) powi (expo x - 52) = 1 / 2 ^ j"
    by (simp add: e power_int_minus field_simps)
  show ?thesis using x0 by (simp add: fl_pos_eq u)
qed

lemma floor_rat_numeral:
  "\<lfloor>numeral a / numeral b :: rat\<rfloor> = numeral a div numeral b"
  "\<lfloor>1 / numeral b :: rat\<rfloor> = 1 div numeral b"
  "\<lfloor>- (numeral a / numeral b) :: rat\<rfloor> = - numeral a div numeral b"
  "\<lfloor>- (1 / numeral b) :: rat\<rfloor> = - 1 div numeral b"
proof -
  show "\<lfloor>numeral a / numeral b :: rat\<rfloor> = numeral a div numeral b"
    using floor_divide_of_int_eq[of "numeral a" "numeral b", where ?'a = rat] by simp
  show "\<lfloor>1 / numeral b :: rat\<rfloor> = 1 div numeral b"
    using floor_divide_of_int_eq[of 1 "numeral b", where ?'a = rat] by simp
  show "\<lfloor>- (numeral a / numeral b) :: rat\<rfloor> = - numeral a div numeral b"
    using floor_divide_of_int_eq[of "- numeral a" "numeral b", where ?'a = rat] by simp
  show "\<lfloor>- (1 / numeral b) :: rat\<rfloor> = - 1 div numeral b"
    using floor_divide_of_int_eq[of "- 1" "numeral b", where ?'a = rat] by simp
qed

text \<open>The facts that evaluate a rounding, and \<open>Math.round\<close>, on a numeral.\<close>

lemmas fl_eval = rne_def floor_rat_numeral Let_def fl_minus

lemmas fl_ops = fdiv_def fmul_def fadd_def fsub_def fl_zero

lemmas js_eval = js_round_def floor_rat_numeral Let_def

lemma js_round_of_int: "js_round (of_int n) = n"
  by (simp add: js_round_def) linarith

lemma js_round_half: "js_round (of_int n / 2) = (n + 1) div 2"
proof -
  have "(of_int n / 2 + 1 / 2 :: rat) = of_int (n + 1) / of_int 2" by (simp add: field_simps)
  then show ?thesis unfolding js_round_def by (simp only: floor_divide_of_int_eq)
qed

text \<open>The rounding is monotone and idempotent.\<close>

lemma rne_floor: "\<lfloor>y\<rfloor> \<le> rne y" "rne y \<le> \<lfloor>y\<rfloor> + 1"
  by (auto simp: rne_def Let_def)

lemma rne_mono:
  assumes "a \<le> b"
  shows "rne a \<le> rne b"
proof (cases "\<lfloor>a\<rfloor> = \<lfloor>b\<rfloor>")
  case True
  with assms show ?thesis by (auto simp: rne_def Let_def)
next
  case False
  moreover have "\<lfloor>a\<rfloor> \<le> \<lfloor>b\<rfloor>" using assms by (rule floor_mono)
  ultimately have "\<lfloor>a\<rfloor> + 1 \<le> \<lfloor>b\<rfloor>" by simp
  with rne_floor(2)[of a] rne_floor(1)[of b] show ?thesis by linarith
qed

lemma fl_binade:
  assumes "0 < x"
  shows "2 powi expo x \<le> fl x" "fl x \<le> 2 powi (expo x + 1)"
proof -
  define u :: rat where "u = 2 powi (expo x - 52)"
  have u0: "0 < u" by (simp add: u_def)
  have b: "2 powi expo x \<le> x" "x < 2 powi (expo x + 1)"
    using expo_bounds[of x] assms by simp_all
  have p1: "(2::rat) powi expo x = 2 ^ 52 * u"
    by (simp add: u_def power_int_diff)
  have p2: "(2::rat) powi (expo x + 1) = 2 ^ 53 * u"
    by (simp add: u_def power_int_diff power_int_add)
  have lo: "2 ^ 52 \<le> x / u" using b(1) u0 by (simp add: p1 field_simps)
  have "x < 2 ^ 53 * u" using b(2) unfolding p2 .
  then have hi: "x / u < 2 ^ 53" using u0 by (simp add: field_simps)
  have "(of_int (2 ^ 52) :: rat) \<le> x / u" using lo by simp
  then have "2 ^ 52 \<le> \<lfloor>x / u\<rfloor>" by (simp only: le_floor_iff)
  with rne_floor(1)[of "x / u"] have r1: "2 ^ 52 \<le> rne (x / u)" by linarith
  have "x / u < of_int (2 ^ 53)" using hi by simp
  then have "\<lfloor>x / u\<rfloor> < 2 ^ 53" by (simp only: floor_less_iff)
  with rne_floor(2)[of "x / u"] have r2: "rne (x / u) \<le> 2 ^ 53" by linarith
  have f: "fl x = of_int (rne (x / u)) * u" using assms by (simp add: fl_pos_eq u_def)
  have "(of_int (2 ^ 52) :: rat) \<le> of_int (rne (x / u))" using r1 by (simp only: of_int_le_iff)
  then have "2 ^ 52 * u \<le> of_int (rne (x / u)) * u" using u0 by (simp add: mult_right_mono)
  then show "2 powi expo x \<le> fl x" by (simp add: f p1)
  have "(of_int (rne (x / u)) :: rat) \<le> of_int (2 ^ 53)" using r2 by (simp only: of_int_le_iff)
  then have "of_int (rne (x / u)) * u \<le> 2 ^ 53 * u" using u0 by (simp add: mult_right_mono)
  then show "fl x \<le> 2 powi (expo x + 1)" by (simp add: f p2)
qed

lemma fl_mono_pos:
  assumes "0 < x" "x \<le> y"
  shows "fl x \<le> fl y"
proof -
  have y0: "0 < y" using assms by simp
  have bx: "2 powi expo x \<le> x" "x < 2 powi (expo x + 1)"
    using expo_bounds[of x] assms by simp_all
  have "by": "2 powi expo y \<le> y" "y < 2 powi (expo y + 1)"
    using expo_bounds[of y] y0 by simp_all
  have "(2::rat) powi expo x < 2 powi (expo y + 1)" using bx(1) "by"(2) assms(2) by linarith
  then have "\<not> expo y + 1 \<le> expo x"
    using power_int_increasing[of "expo y + 1" "expo x" "2::rat"] by auto
  then have le: "expo x \<le> expo y" by simp
  show ?thesis
  proof (cases "expo x = expo y")
    case True
    define u :: rat where "u = 2 powi (expo x - 52)"
    have u0: "0 < u" by (simp add: u_def)
    have "x / u \<le> y / u" using assms(2) u0 by (simp add: divide_right_mono)
    then have "rne (x / u) \<le> rne (y / u)" by (rule rne_mono)
    then have "(of_int (rne (x / u)) :: rat) \<le> of_int (rne (y / u))" by (simp only: of_int_le_iff)
    then have "of_int (rne (x / u)) * u \<le> of_int (rne (y / u)) * u"
      using u0 by (simp add: mult_right_mono)
    then show ?thesis using assms(1) y0 True by (simp add: fl_pos_eq u_def)
  next
    case False
    with le have "expo x + 1 \<le> expo y" by simp
    then have "(2::rat) powi (expo x + 1) \<le> 2 powi expo y"
      by (intro power_int_increasing) auto
    with fl_binade(2)[OF assms(1)] fl_binade(1)[OF y0] show ?thesis by linarith
  qed
qed

lemma fl_mono:
  assumes "x \<le> y"
  shows "fl x \<le> fl y"
proof -
  consider "0 < x" | "x \<le> 0" "0 \<le> y" | "y < 0" using assms by linarith
  then show ?thesis
  proof cases
    case 1
    then show ?thesis using assms by (rule fl_mono_pos)
  next
    case 2
    have "0 \<le> fl (- x)" using 2(1) by (intro fl_nonneg) simp
    then have "fl x \<le> 0" by (simp add: fl_minus)
    moreover have "0 \<le> fl y" using 2(2) by (rule fl_nonneg)
    ultimately show ?thesis by simp
  next
    case 3
    then have "fl (- y) \<le> fl (- x)" using assms by (intro fl_mono_pos) simp_all
    then show ?thesis by (simp add: fl_minus)
  qed
qed

lemma fl_idem: "fl (fl x) = fl x"
proof -
  have pos: "fl (fl y) = fl y" if "0 < y" for y
  proof -
    define u :: rat where "u = 2 powi (expo y - 52)"
    define m where "m = rne (y / u)"
    have u0: "0 < u" by (simp add: u_def)
    have b: "y < 2 powi (expo y + 1)" using expo_bounds[of y] that by simp
    have p2: "(2::rat) powi (expo y + 1) = 2 ^ 53 * u"
      by (simp add: u_def power_int_diff power_int_add)
    have "y < 2 ^ 53 * u" using b unfolding p2 .
    then have "y / u < of_int (2 ^ 53)" using u0 by (simp add: field_simps)
    then have "\<lfloor>y / u\<rfloor> < 2 ^ 53" by (simp only: floor_less_iff)
    with rne_floor(2)[of "y / u"] have m2: "m \<le> 2 ^ 53" unfolding m_def by linarith
    have m0: "0 \<le> m" unfolding m_def using that u0 by (intro rne_nonneg) simp
    have f: "fl y = of_int m * 2 powi (expo y - 52)"
      using that by (simp add: fl_pos_eq u_def m_def)
    show ?thesis
    proof (cases "m = 2 ^ 53")
      case True
      have pw: "(2::rat) powi (expo y - 52 + 1) = 2 powi (expo y - 52) * 2"
        by (rule power_int_add_1) simp
      have "fl y = of_int (2 ^ 52) * 2 powi (expo y - 52 + 1)"
        unfolding pw by (simp add: f True)
      moreover have "fl (of_int (2 ^ 52) * 2 powi (expo y - 52 + 1)) =
          of_int (2 ^ 52) * 2 powi (expo y - 52 + 1)"
        by (rule fl_exact) simp
      ultimately show ?thesis by simp
    next
      case False
      with m2 m0 have "\<bar>m\<bar> < 2 ^ 53" by simp
      then have "fl (of_int m * 2 powi (expo y - 52)) = of_int m * 2 powi (expo y - 52)"
        by (rule fl_exact)
      then show ?thesis by (simp add: f)
    qed
  qed
  consider "x = 0" | "0 < x" | "x < 0" by linarith
  then show ?thesis
  proof cases
    case 1 then show ?thesis by (simp add: fl_zero)
  next
    case 2 then show ?thesis by (rule pos)
  next
    case 3
    then have "fl (fl (- x)) = fl (- x)" by (intro pos) simp
    then show ?thesis by (simp add: fl_minus)
  qed
qed

text \<open>Intervals with representable ends are kept by the rounding and by \<open>Math.round\<close>.\<close>

lemma fl_between:
  assumes "of_int a \<le> x" "x \<le> of_int b" "\<bar>a\<bar> < 2 ^ 53" "\<bar>b\<bar> < 2 ^ 53"
  shows "of_int a \<le> fl x" "fl x \<le> of_int b"
proof -
  have "fl (of_int a) \<le> fl x" using assms(1) by (rule fl_mono)
  then show "of_int a \<le> fl x" using fl_of_int[OF assms(3)] by simp
  have "fl x \<le> fl (of_int b)" using assms(2) by (rule fl_mono)
  then show "fl x \<le> of_int b" using fl_of_int[OF assms(4)] by simp
qed

lemma fl_nonpos: "x \<le> 0 \<Longrightarrow> fl x \<le> 0"
  using fl_mono[of x 0] by (simp add: fl_zero)

lemma fl_unit: "0 \<le> x \<Longrightarrow> x \<le> 1 \<Longrightarrow> 0 \<le> fl x \<and> fl x \<le> 1"
  using fl_between[of 0 x 1] by simp

lemma fl_sym_unit: "- 1 \<le> x \<Longrightarrow> x \<le> 1 \<Longrightarrow> - 1 \<le> fl x \<and> fl x \<le> 1"
  using fl_between[of "- 1" x 1] by simp

lemma fl_range:
  "0 \<le> x \<Longrightarrow> x \<le> numeral n \<Longrightarrow> numeral n < (2::int) ^ 53 \<Longrightarrow> 0 \<le> fl x \<and> fl x \<le> numeral n"
  using fl_between[of 0 x "numeral n"] by simp

lemma js_round_between:
  assumes "of_int a - 1/2 \<le> x" "x < of_int b + 1/2"
  shows "a \<le> js_round x" "js_round x \<le> b"
proof -
  have "of_int a \<le> x + 1/2" using assms(1) by simp
  then show "a \<le> js_round x" unfolding js_round_def by (simp only: le_floor_iff)
  have "x + 1/2 < of_int (b + 1)" using assms(2) by simp
  then have "\<lfloor>x + 1/2\<rfloor> < b + 1" by (simp only: floor_less_iff)
  then show "js_round x \<le> b" unfolding js_round_def by simp
qed

lemma js_round_range:
  "0 \<le> x \<Longrightarrow> x \<le> numeral n \<Longrightarrow> 0 \<le> js_round x \<and> js_round x \<le> numeral n"
  using js_round_between[of 0 x "numeral n"] by simp

lemma scaled_range:
  assumes "0 \<le> x" "x \<le> 1" "numeral n < (2::int) ^ 53"
  shows "0 \<le> js_round (fmul x (numeral n)) \<and> js_round (fmul x (numeral n)) \<le> numeral n"
proof -
  have "0 \<le> x * numeral n" "x * numeral n \<le> numeral n"
    using assms(1,2) by (simp_all add: mult_le_cancel_right1)
  then have "0 \<le> fl (x * numeral n) \<and> fl (x * numeral n) \<le> numeral n"
    using assms(3) by (intro fl_range)
  then show ?thesis unfolding fmul_def by (intro js_round_range) simp_all
qed

lemma hue_fraction:
  assumes "- 1 \<le> \<rho>" "\<rho> \<le> 1" "k = 2 \<or> k = 4"
  shows "0 \<le> fdiv (fadd \<rho> k) 6 \<and> fdiv (fadd \<rho> k) 6 \<le> 1"
proof -
  have "1 \<le> \<rho> + k" "\<rho> + k \<le> 5" using assms by auto
  then have "of_int 1 \<le> fl (\<rho> + k)" "fl (\<rho> + k) \<le> of_int 5"
    using fl_between[of 1 "\<rho> + k" 5] by simp_all
  then have "0 \<le> fl (\<rho> + k) / 6" "fl (\<rho> + k) / 6 \<le> 1" by simp_all
  then show ?thesis unfolding fdiv_def fadd_def by (rule fl_unit)
qed

lemma hue_fraction_red:
  assumes "- 1 \<le> \<rho>" "\<rho> \<le> 1" "k = 6 \<and> \<rho> \<le> 0 \<or> k = 0 \<and> 0 \<le> \<rho>"
  shows "0 \<le> fdiv (fadd \<rho> k) 6 \<and> fdiv (fadd \<rho> k) 6 \<le> 1"
proof -
  have "0 \<le> \<rho> + k" "\<rho> + k \<le> 6" using assms by auto
  then have "of_int 0 \<le> fl (\<rho> + k)" "fl (\<rho> + k) \<le> of_int 6"
    using fl_between[of 0 "\<rho> + k" 6] by simp_all
  then have "0 \<le> fl (\<rho> + k) / 6" "fl (\<rho> + k) / 6 \<le> 1" by simp_all
  then show ?thesis unfolding fdiv_def fadd_def by (rule fl_unit)
qed

lemma chroma_ratio:
  assumes "mn \<le> a" "a \<le> mx" "mn \<le> b" "b \<le> mx" "mn < mx"
  shows "- 1 \<le> fdiv (fsub a b) (fsub mx mn)" "fdiv (fsub a b) (fsub mx mn) \<le> 1"
    "a < b \<Longrightarrow> fdiv (fsub a b) (fsub mx mn) \<le> 0"
    "b \<le> a \<Longrightarrow> 0 \<le> fdiv (fsub a b) (fsub mx mn)"
proof -
  define d where "d = fl (mx - mn)"
  have "0 \<le> d" unfolding d_def using assms(5) by (intro fl_nonneg) simp
  moreover have "d \<noteq> 0" unfolding d_def using assms(5) by (simp add: fl_eq_0_iff)
  ultimately have d0: "0 < d" by simp
  have "fl (a - b) \<le> d" unfolding d_def using assms by (intro fl_mono) linarith
  moreover have "fl (- (mx - mn)) \<le> fl (a - b)" using assms by (intro fl_mono) linarith
  then have "- d \<le> fl (a - b)" unfolding d_def by (simp only: fl_minus)
  ultimately have "- 1 \<le> fl (a - b) / d" "fl (a - b) / d \<le> 1"
    using d0 by (simp_all add: field_simps)
  then have "- 1 \<le> fl (fl (a - b) / d) \<and> fl (fl (a - b) / d) \<le> 1" by (rule fl_sym_unit)
  then show "- 1 \<le> fdiv (fsub a b) (fsub mx mn)" "fdiv (fsub a b) (fsub mx mn) \<le> 1"
    by (simp_all add: fdiv_def fsub_def d_def)
  show "fdiv (fsub a b) (fsub mx mn) \<le> 0" if "a < b"
  proof -
    have "fl (a - b) \<le> 0" using that by (intro fl_nonpos) simp
    then have "fl (a - b) / d \<le> 0" using d0 by (simp add: field_simps)
    then show ?thesis unfolding fdiv_def fsub_def d_def[symmetric] by (rule fl_nonpos)
  qed
  show "0 \<le> fdiv (fsub a b) (fsub mx mn)" if "b \<le> a"
  proof -
    have "0 \<le> fl (a - b)" using that by (intro fl_nonneg) simp
    then have "0 \<le> fl (a - b) / d" using d0 by simp
    then show ?thesis unfolding fdiv_def fsub_def d_def[symmetric] by (rule fl_nonneg)
  qed
qed

lemma fl_near:
  assumes "\<bar>x\<bar> \<le> 512"
  shows "x - 1 / 2 ^ 44 \<le> fl x" "fl x \<le> x + 1 / 2 ^ 44"
  using fl_error_512[OF assms] by linarith+

lemma convex_bound:
  fixes p q \<theta> lo hi :: rat
  assumes "lo \<le> p" "p \<le> hi" "lo \<le> q" "q \<le> hi" "0 \<le> \<theta>" "\<theta> \<le> 1"
  shows "lo \<le> p + \<theta> * (q - p)" "p + \<theta> * (q - p) \<le> hi"
proof -
  have e: "p + \<theta> * (q - p) = (1 - \<theta>) * p + \<theta> * q" by (simp add: algebra_simps)
  have "(1 - \<theta>) * lo \<le> (1 - \<theta>) * p" using assms by (intro mult_left_mono) auto
  moreover have "\<theta> * lo \<le> \<theta> * q" using assms by (intro mult_left_mono) auto
  moreover have "(1 - \<theta>) * lo + \<theta> * lo = lo" by (simp add: algebra_simps)
  ultimately show "lo \<le> p + \<theta> * (q - p)" unfolding e by linarith
  have "(1 - \<theta>) * p \<le> (1 - \<theta>) * hi" using assms by (intro mult_left_mono) auto
  moreover have "\<theta> * q \<le> \<theta> * hi" using assms by (intro mult_left_mono) auto
  moreover have "(1 - \<theta>) * hi + \<theta> * hi = hi" by (simp add: algebra_simps)
  ultimately show "p + \<theta> * (q - p) \<le> hi" unfolding e by linarith
qed

lemma small_product:
  fixes a t :: rat
  assumes "\<bar>a\<bar> \<le> A" "0 \<le> t" "t \<le> T"
  shows "\<bar>a * t\<bar> \<le> A * T"
proof -
  have "\<bar>a * t\<bar> = \<bar>a\<bar> * t" using assms(2) by (simp add: abs_mult)
  also have "\<dots> \<le> A * T" using assms by (intro mult_mono) auto
  finally show ?thesis .
qed

lemma fdiv_constants:
  "fdiv 1 6 = 6004799503160661 / 36028797018963968"
  "fdiv 1 3 = 6004799503160661 / 18014398509481984"
  "fdiv 2 3 = 6004799503160661 / 9007199254740992"
  "fdiv 1 2 = 1 / 2"
  using fl_eqI[where x = "1 / 6" and j = 55] fl_eqI[where x = "1 / 3" and j = 54]
    fl_eqI[where x = "2 / 3" and j = 53] fl_eqI[where x = "1 / 2" and j = 53]
  by (simp_all add: fl_ops fl_eval)

section \<open>The device profile table\<close>

lemma DEVICE_PROFILES_tl_fans: "DEVICE_PROFILES ''tl-fans'' = Some tl_fans"
  by (simp add: DEVICE_PROFILES_def)

lemma fl_le_one: "x \<le> 1 \<Longrightarrow> fl x \<le> 1"
  using fl_mono[of x 1] fl_of_int[of 1] by simp

lemma profile_bounds:
  assumes "DEVICE_PROFILES key = Some p"
  shows "0 \<le> greenReduction p \<and> greenReduction p \<le> 1 \<and>
    0 \<le> blueReduction p \<and> blueReduction p \<le> 1 \<and>
    0 \<le> saturationBoost p \<and> profile.hueShift p \<le> 0 \<and>
    (\<forall>c\<in>set (hueCorrections p).
       (\<forall>m. greenMultiplier c = Some m \<longrightarrow> 0 \<le> m \<and> m \<le> 1) \<and>
       (\<forall>m. blueMultiplier c = Some m \<longrightarrow> 0 \<le> m \<and> m \<le> 1))"
proof -
  have "p \<in> {tl_fans, strimer, sl_fans, corsair_ql, corsair_ll, corsair_sp, nzxt_aer,
      nzxt_kraken, nzxt_hue, cm_masterfan, cm_sickleflow, cm_halos}"
    using assms by (auto simp: DEVICE_PROFILES_def split: if_splits)
  then show ?thesis
    by (elim insertE emptyE)
      (simp_all add: tl_fans_def strimer_def sl_fans_def corsair_ql_def corsair_ll_def
        corsair_sp_def nzxt_aer_def nzxt_kraken_def nzxt_hue_def cm_masterfan_def
        cm_sickleflow_def cm_halos_def fl_nonneg fl_le_one)
qed

section \<open>The scan for a special correction\<close>




lemma correctColor_branches:
  assumes "DEVICE_PROFILES key = Some p"
  shows "correctColor c key =
    (let hs = rgbToHsl (rgb_r c) (rgb_g c) (rgb_b c);
         v = (case specialCorrection (hsl_h hs) (hueCorrections p) of
                Some sc \<Rightarrow> applySpecial c hs sc
              | None \<Rightarrow> applyGeneral c hs p);
         out = blend hs v (boostSaturation hs p)
     in Inr \<lparr>rgb_r = clamp255 (rgb_r out), rgb_g = clamp255 (rgb_g out),
             rgb_b = clamp255 (rgb_b out)\<rparr>)"
  using assms by (simp add: correctColor_def)

lemma specialCorrection_in_set: "specialCorrection h cs = Some c \<Longrightarrow> c \<in> set cs"
  by (induction cs) (auto split: prod.splits if_splits)

section \<open>Worked values\<close>

text \<open>
  The corrections of four colors under the profile \<open>tl-fans\<close>, and one round trip
  through HSL, computed stage by stage. Each group of facts gives the binary64 results of
  the roundings that the stage after it performs; \<open>fl_eqI\<close> checks every one of them from
  its 53-bit significand. Orange \<open>(255, 102, 0)\<close> meets the rule for \<open>[15, 45]\<close> and is
  blended; blue \<open>(0, 0, 255)\<close>, grey \<open>(128, 128, 128)\<close> and green \<open>(0, 255, 0)\<close>
  meet no rule and are not blended.
\<close>

lemma cc_orange_hsl_ops_1:
  "fdiv 255 255 = 1"
  "fdiv 102 255 = 3602879701896397 / 9007199254740992"
  "fdiv 0 255 = 0"
  "fadd 1 0 = 1"
  "fdiv 1 2 = 1 / 2"
  "fsub 1 0 = 1"
  "fdiv 1 1 = 1"
  "fsub (3602879701896397 / 9007199254740992) 0 = 3602879701896397 / 9007199254740992"
  using fl_eqI[where x = "1" and j = 52]
    fl_eqI[where x = "2 / 5" and j = 54]
    fl_eqI[where x = "1" and j = 52]
    fl_eqI[where x = "1 / 2" and j = 53]
    fl_eqI[where x = "1" and j = 52]
    fl_eqI[where x = "1" and j = 52]
    fl_eqI[where x = "3602879701896397 / 9007199254740992" and j = 54]
  by (simp_all add: fl_ops fl_eval)

lemma cc_orange_hsl_ops_2:
  "fdiv (3602879701896397 / 9007199254740992) 1 = 3602879701896397 / 9007199254740992"
  "fadd (3602879701896397 / 9007199254740992) 0 = 3602879701896397 / 9007199254740992"
  "fdiv (3602879701896397 / 9007199254740992) 6 = 4803839602528529 / 72057594037927936"
  "fmul (4803839602528529 / 72057594037927936) 360 = 24"
  "fmul 1 100 = 100"
  "fmul (1 / 2) 100 = 50"
  using fl_eqI[where x = "3602879701896397 / 9007199254740992" and j = 54]
    fl_eqI[where x = "3602879701896397 / 9007199254740992" and j = 54]
    fl_eqI[where x = "3602879701896397 / 54043195528445952" and j = 56]
    fl_eqI[where x = "216172782113783805 / 9007199254740992" and j = 48]
    fl_eqI[where x = "100" and j = 46]
    fl_eqI[where x = "50" and j = 47]
  by (simp_all add: fl_ops fl_eval)

lemma cc_orange_hsl: "rgbToHsl 255 102 0 = \<lparr>hsl_h = 24, hsl_s = 100, hsl_l = 50\<rparr>"
  by (simp add: rgbToHsl_def js_eval cc_orange_hsl_ops_1 cc_orange_hsl_ops_2)

lemma cc_orange_ops_1:
  "fl (2 / 25) = 5764607523034235 / 72057594037927936"
  "fmul 102 (5764607523034235 / 72057594037927936) = 2296835809958953 / 281474976710656"
  "fadd 24 (- 10) = 14"
  "fl (23 / 20) = 2589569785738035 / 2251799813685248"
  "fmul 100 (2589569785738035 / 2251799813685248) = 8092405580431359 / 70368744177664"
  "fsub 14 24 = - 10"
  "fadd 255 255 = 510"
  "fdiv 510 2 = 255"
  using fl_eqI[where x = "2 / 25" and j = 56]
    fl_eqI[where x = "293994983674745985 / 36028797018963968" and j = 49]
    fl_eqI[where x = "14" and j = 49]
    fl_eqI[where x = "23 / 20" and j = 52]
    fl_eqI[where x = "64739244643450875 / 562949953421312" and j = 46]
    fl_eqI[where x = "10" and j = 49]
    fl_eqI[where x = "510" and j = 44]
    fl_eqI[where x = "255" and j = 45]
  by (simp_all add: fl_ops fl_eval)

lemma cc_orange_ops_2:
  "fadd 8 60 = 68"
  "fdiv 68 2 = 34"
  "fadd 0 0 = 0"
  "fdiv 0 2 = 0"
  using fl_eqI[where x = "68" and j = 46]
    fl_eqI[where x = "34" and j = 47]
  by (simp_all add: fl_ops fl_eval)

lemma cc_orange_rule: "specialCorrection 24 (hueCorrections tl_fans) =
    Some \<lparr>range = (15, 45), greenMultiplier = Some (fl (2 / 25)), blueMultiplier = None,
        hueCorrection.hueShift = - 10\<rparr>"
  by (simp add: tl_fans_def)

lemma cc_orange_direct: "applySpecial \<lparr>rgb_r = 255, rgb_g = 102, rgb_b = 0\<rparr> \<lparr>hsl_h = 24, hsl_s = 100, hsl_l = 50\<rparr>
    \<lparr>range = (15, 45), greenMultiplier = Some (fl (2 / 25)), blueMultiplier = None,
        hueCorrection.hueShift = - 10\<rparr> =
    \<lparr>correctedR = 255, correctedG = 8, correctedB = 0, correctedHue = 14\<rparr>"
  by (simp add: applySpecial_def js_eval cc_orange_ops_1 cc_orange_ops_2)

lemma cc_orange_sat: "boostSaturation \<lparr>hsl_h = 24, hsl_s = 100, hsl_l = 50\<rparr> tl_fans = 100"
  by (simp add: boostSaturation_def tl_fans_def cc_orange_ops_1 cc_orange_ops_2)

lemma cc_orange_new_ops_1:
  "fdiv 14 360 = 1401119884070821 / 36028797018963968"
  "fdiv 100 100 = 1"
  "fdiv 50 100 = 1 / 2"
  "fadd (1 / 2) 1 = 3 / 2"
  "fmul (1 / 2) 1 = 1 / 2"
  "fsub (3 / 2) (1 / 2) = 1"
  "fmul 2 (1 / 2) = 1"
  "fsub 1 1 = 0"
  using fl_eqI[where x = "7 / 180" and j = 57]
    fl_eqI[where x = "1" and j = 52]
    fl_eqI[where x = "1 / 2" and j = 53]
    fl_eqI[where x = "3 / 2" and j = 52]
    fl_eqI[where x = "1 / 2" and j = 53]
    fl_eqI[where x = "1" and j = 52]
    fl_eqI[where x = "1" and j = 52]
  by (simp_all add: fl_ops fl_eval)

lemma cc_orange_new_ops_2:
  "fdiv 1 3 = 6004799503160661 / 18014398509481984"
  "fadd (1401119884070821 / 36028797018963968) (6004799503160661 / 18014398509481984) = 838169930649509 / 2251799813685248"
  "fdiv 1 6 = 6004799503160661 / 36028797018963968"
  "fdiv 1 2 = 1 / 2"
  "fmul 1 255 = 255"
  "fsub 1 0 = 1"
  "fmul 1 6 = 6"
  "fmul 6 (1401119884070821 / 36028797018963968) = 4203359652212463 / 18014398509481984"
  using fl_eqI[where x = "1 / 3" and j = 54]
    fl_eqI[where x = "13410718890392143 / 36028797018963968" and j = 54]
    fl_eqI[where x = "1 / 6" and j = 55]
    fl_eqI[where x = "1 / 2" and j = 53]
    fl_eqI[where x = "255" and j = 45]
    fl_eqI[where x = "1" and j = 52]
    fl_eqI[where x = "6" and j = 50]
    fl_eqI[where x = "4203359652212463 / 18014398509481984" and j = 55]
  by (simp_all add: fl_ops fl_eval)

lemma cc_orange_new_ops_3:
  "fadd 0 (4203359652212463 / 18014398509481984) = 4203359652212463 / 18014398509481984"
  "fmul (4203359652212463 / 18014398509481984) 255 = 119 / 2"
  "fsub (1401119884070821 / 36028797018963968) (6004799503160661 / 18014398509481984) = - (2652119780562625 / 9007199254740992)"
  "fadd (- (2652119780562625 / 9007199254740992)) 1 = 6355079474178367 / 9007199254740992"
  "fdiv 2 3 = 6004799503160661 / 9007199254740992"
  "fmul 0 255 = 0"
  using fl_eqI[where x = "4203359652212463 / 18014398509481984" and j = 55]
    fl_eqI[where x = "1071856711314178065 / 18014398509481984" and j = 47]
    fl_eqI[where x = "10608479122250501 / 36028797018963968" and j = 54]
    fl_eqI[where x = "6355079474178367 / 9007199254740992" and j = 53]
    fl_eqI[where x = "2 / 3" and j = 53]
  by (simp_all add: fl_ops fl_eval)

lemma cc_orange_new: "hslToRgb 14 100 50 = \<lparr>rgb_r = 255, rgb_g = 60, rgb_b = 0\<rparr>"
  by (simp add: hslToRgb_def hue2rgb_def js_eval cc_orange_new_ops_1 cc_orange_new_ops_2 cc_orange_new_ops_3)

lemma cc_orange_significant: "significant \<lparr>hsl_h = 24, hsl_s = 100, hsl_l = 50\<rparr>
    \<lparr>correctedR = 255, correctedG = 8, correctedB = 0, correctedHue = 14\<rparr> 100"
  by (simp add: significant_def cc_orange_ops_1 cc_orange_ops_2)

lemma cc_orange_blend: "blend \<lparr>hsl_h = 24, hsl_s = 100, hsl_l = 50\<rparr>
    \<lparr>correctedR = 255, correctedG = 8, correctedB = 0, correctedHue = 14\<rparr> 100 =
    \<lparr>rgb_r = 255, rgb_g = 34, rgb_b = 0\<rparr>"
  unfolding blend_def using cc_orange_significant
  by (simp add: cc_orange_new average_def js_eval cc_orange_ops_1 cc_orange_ops_2)

lemma cc_orange: "correctColor \<lparr>rgb_r = 255, rgb_g = 102, rgb_b = 0\<rparr> ''tl-fans'' =
    Inr \<lparr>rgb_r = 255, rgb_g = 34, rgb_b = 0\<rparr>"
proof -
  have hs: "rgbToHsl (rgb_r \<lparr>rgb_r = 255, rgb_g = 102, rgb_b = 0\<rparr>) (rgb_g \<lparr>rgb_r = 255, rgb_g = 102, rgb_b = 0\<rparr>)
      (rgb_b \<lparr>rgb_r = 255, rgb_g = 102, rgb_b = 0\<rparr>) = \<lparr>hsl_h = 24, hsl_s = 100, hsl_l = 50\<rparr>"
    by (simp add: cc_orange_hsl)
  have p: "DEVICE_PROFILES ''tl-fans'' = Some tl_fans" by (simp add: DEVICE_PROFILES_def)
  show ?thesis
    unfolding correctColor_branches[OF p] hs Let_def
    by (simp add: cc_orange_rule cc_orange_direct cc_orange_sat cc_orange_blend clamp255_def)
qed

lemma cc_blue_hsl_ops_1:
  "fdiv 0 255 = 0"
  "fdiv 255 255 = 1"
  "fadd 1 0 = 1"
  "fdiv 1 2 = 1 / 2"
  "fsub 1 0 = 1"
  "fdiv 1 1 = 1"
  "fsub 0 0 = 0"
  "fdiv 0 1 = 0"
  using fl_eqI[where x = "1" and j = 52]
    fl_eqI[where x = "1" and j = 52]
    fl_eqI[where x = "1 / 2" and j = 53]
    fl_eqI[where x = "1" and j = 52]
    fl_eqI[where x = "1" and j = 52]
  by (simp_all add: fl_ops fl_eval)

lemma cc_blue_hsl_ops_2:
  "fadd 0 4 = 4"
  "fdiv 4 6 = 6004799503160661 / 9007199254740992"
  "fmul (6004799503160661 / 9007199254740992) 360 = 240"
  "fmul 1 100 = 100"
  "fmul (1 / 2) 100 = 50"
  using fl_eqI[where x = "4" and j = 50]
    fl_eqI[where x = "2 / 3" and j = 53]
    fl_eqI[where x = "270215977642229745 / 1125899906842624" and j = 45]
    fl_eqI[where x = "100" and j = 46]
    fl_eqI[where x = "50" and j = 47]
  by (simp_all add: fl_ops fl_eval)

lemma cc_blue_hsl: "rgbToHsl 0 0 255 = \<lparr>hsl_h = 240, hsl_s = 100, hsl_l = 50\<rparr>"
  by (simp add: rgbToHsl_def js_eval cc_blue_hsl_ops_1 cc_blue_hsl_ops_2)

lemma cc_blue_ops_1:
  "fsub 240 270 = - 30"
  "fdiv (- 30) 70 = - (7720456504063707 / 18014398509481984)"
  "fsub 1 (7720456504063707 / 18014398509481984) = 2573485501354569 / 4503599627370496"
  "fl (7 / 10) = 3152519739159347 / 4503599627370496"
  "fsub 1 (3152519739159347 / 4503599627370496) = 1351079888211149 / 4503599627370496"
  "fmul (2573485501354569 / 4503599627370496) (1351079888211149 / 4503599627370496) = 6176365203250967 / 36028797018963968"
  "fl (3 / 10) = 5404319552844595 / 18014398509481984"
  "fmul (6176365203250967 / 36028797018963968) (5404319552844595 / 18014398509481984) = 926454780487645 / 18014398509481984"
  using fl_eqI[where x = "30" and j = 48]
    fl_eqI[where x = "3 / 7" and j = 54]
    fl_eqI[where x = "10293942005418277 / 18014398509481984" and j = 53]
    fl_eqI[where x = "7 / 10" and j = 53]
    fl_eqI[where x = "1351079888211149 / 4503599627370496" and j = 54]
    fl_eqI[where x = "3476984503483143822933787889781 / 20282409603651670423947251286016" and j = 55]
    fl_eqI[where x = "3 / 10" and j = 54]
    fl_eqI[where x = "33379051233438182089846534473365 / 649037107316853453566312041152512" and j = 57]
  by (simp_all add: fl_ops fl_eval)

lemma cc_blue_ops_2:
  "fsub 1 (926454780487645 / 18014398509481984) = 4271985932248585 / 4503599627370496"
  "fmul 255 (4271985932248585 / 4503599627370496) = 4255298487200739 / 17592186044416"
  "fl (23 / 20) = 2589569785738035 / 2251799813685248"
  "fmul 100 (2589569785738035 / 2251799813685248) = 8092405580431359 / 70368744177664"
  "fsub 240 240 = 0"
  "fsub 100 100 = 0"
  using fl_eqI[where x = "17087943728994339 / 18014398509481984" and j = 53]
    fl_eqI[where x = "1089356412723389175 / 4503599627370496" and j = 45]
    fl_eqI[where x = "23 / 20" and j = 52]
    fl_eqI[where x = "64739244643450875 / 562949953421312" and j = 46]
  by (simp_all add: fl_ops fl_eval)

lemma cc_blue_rule: "specialCorrection 240 (hueCorrections tl_fans) = None"
  by (simp add: tl_fans_def)

lemma cc_blue_direct: "applyGeneral \<lparr>rgb_r = 0, rgb_g = 0, rgb_b = 255\<rparr> \<lparr>hsl_h = 240, hsl_s = 100, hsl_l = 50\<rparr> tl_fans =
    \<lparr>correctedR = 0, correctedG = 0, correctedB = 242, correctedHue = 240\<rparr>"
  by (simp add: applyGeneral_def tl_fans_def js_eval cc_blue_ops_1 cc_blue_ops_2)

lemma cc_blue_sat: "boostSaturation \<lparr>hsl_h = 240, hsl_s = 100, hsl_l = 50\<rparr> tl_fans = 100"
  by (simp add: boostSaturation_def tl_fans_def cc_blue_ops_1 cc_blue_ops_2)

lemma cc_blue_significant: "\<not> significant \<lparr>hsl_h = 240, hsl_s = 100, hsl_l = 50\<rparr>
    \<lparr>correctedR = 0, correctedG = 0, correctedB = 242, correctedHue = 240\<rparr> 100"
  by (simp add: significant_def cc_blue_ops_1 cc_blue_ops_2)

lemma cc_blue_blend: "blend \<lparr>hsl_h = 240, hsl_s = 100, hsl_l = 50\<rparr>
    \<lparr>correctedR = 0, correctedG = 0, correctedB = 242, correctedHue = 240\<rparr> 100 =
    \<lparr>rgb_r = 0, rgb_g = 0, rgb_b = 242\<rparr>"
  unfolding blend_def using cc_blue_significant by simp

lemma cc_blue: "correctColor \<lparr>rgb_r = 0, rgb_g = 0, rgb_b = 255\<rparr> ''tl-fans'' =
    Inr \<lparr>rgb_r = 0, rgb_g = 0, rgb_b = 242\<rparr>"
proof -
  have hs: "rgbToHsl (rgb_r \<lparr>rgb_r = 0, rgb_g = 0, rgb_b = 255\<rparr>) (rgb_g \<lparr>rgb_r = 0, rgb_g = 0, rgb_b = 255\<rparr>)
      (rgb_b \<lparr>rgb_r = 0, rgb_g = 0, rgb_b = 255\<rparr>) = \<lparr>hsl_h = 240, hsl_s = 100, hsl_l = 50\<rparr>"
    by (simp add: cc_blue_hsl)
  have p: "DEVICE_PROFILES ''tl-fans'' = Some tl_fans" by (simp add: DEVICE_PROFILES_def)
  show ?thesis
    unfolding correctColor_branches[OF p] hs Let_def
    by (simp add: cc_blue_rule cc_blue_direct cc_blue_sat cc_blue_blend clamp255_def)
qed

lemma cc_grey_hsl_ops_1:
  "fdiv 128 255 = 282578800148737 / 562949953421312"
  "fadd (282578800148737 / 562949953421312) (282578800148737 / 562949953421312) = 282578800148737 / 281474976710656"
  "fdiv (282578800148737 / 281474976710656) 2 = 282578800148737 / 562949953421312"
  "fmul 0 360 = 0"
  "fmul 0 100 = 0"
  "fmul (282578800148737 / 562949953421312) 100 = 7064470003718425 / 140737488355328"
  using fl_eqI[where x = "128 / 255" and j = 53]
    fl_eqI[where x = "282578800148737 / 281474976710656" and j = 52]
    fl_eqI[where x = "282578800148737 / 562949953421312" and j = 53]
    fl_eqI[where x = "7064470003718425 / 140737488355328" and j = 47]
  by (simp_all add: fl_ops fl_eval)

lemma cc_grey_hsl: "rgbToHsl 128 128 128 = \<lparr>hsl_h = 0, hsl_s = 0, hsl_l = 50\<rparr>"
  by (simp add: rgbToHsl_def js_eval cc_grey_hsl_ops_1)

lemma cc_grey_ops_1:
  "fdiv 0 90 = 0"
  "fsub 1 0 = 1"
  "fl (17 / 20) = 7656119366529843 / 9007199254740992"
  "fsub 1 (7656119366529843 / 9007199254740992) = 1351079888211149 / 9007199254740992"
  "fmul 1 (1351079888211149 / 9007199254740992) = 1351079888211149 / 9007199254740992"
  "fsub 1 (1351079888211149 / 9007199254740992) = 7656119366529843 / 9007199254740992"
  "fmul 128 (7656119366529843 / 9007199254740992) = 7656119366529843 / 70368744177664"
  "fmul (- 8) 1 = - 8"
  using fl_eqI[where x = "1" and j = 52]
    fl_eqI[where x = "17 / 20" and j = 53]
    fl_eqI[where x = "1351079888211149 / 9007199254740992" and j = 55]
    fl_eqI[where x = "1351079888211149 / 9007199254740992" and j = 55]
    fl_eqI[where x = "7656119366529843 / 9007199254740992" and j = 53]
    fl_eqI[where x = "7656119366529843 / 70368744177664" and j = 46]
    fl_eqI[where x = "8" and j = 49]
  by (simp_all add: fl_ops fl_eval)

lemma cc_grey_ops_2:
  "fadd 0 (- 8) = - 8"
  "fl (23 / 20) = 2589569785738035 / 2251799813685248"
  "fmul 0 (2589569785738035 / 2251799813685248) = 0"
  "fsub 0 0 = 0"
  using fl_eqI[where x = "8" and j = 49]
    fl_eqI[where x = "23 / 20" and j = 52]
  by (simp_all add: fl_ops fl_eval)

lemma cc_grey_rule: "specialCorrection 0 (hueCorrections tl_fans) = None"
  by (simp add: tl_fans_def)

lemma cc_grey_direct: "applyGeneral \<lparr>rgb_r = 128, rgb_g = 128, rgb_b = 128\<rparr> \<lparr>hsl_h = 0, hsl_s = 0, hsl_l = 50\<rparr> tl_fans =
    \<lparr>correctedR = 128, correctedG = 109, correctedB = 128, correctedHue = 0\<rparr>"
  by (simp add: applyGeneral_def tl_fans_def js_eval cc_grey_ops_1 cc_grey_ops_2)

lemma cc_grey_sat: "boostSaturation \<lparr>hsl_h = 0, hsl_s = 0, hsl_l = 50\<rparr> tl_fans = 0"
  by (simp add: boostSaturation_def tl_fans_def cc_grey_ops_1 cc_grey_ops_2)

lemma cc_grey_significant: "\<not> significant \<lparr>hsl_h = 0, hsl_s = 0, hsl_l = 50\<rparr>
    \<lparr>correctedR = 128, correctedG = 109, correctedB = 128, correctedHue = 0\<rparr> 0"
  by (simp add: significant_def cc_grey_ops_1 cc_grey_ops_2)

lemma cc_grey_blend: "blend \<lparr>hsl_h = 0, hsl_s = 0, hsl_l = 50\<rparr>
    \<lparr>correctedR = 128, correctedG = 109, correctedB = 128, correctedHue = 0\<rparr> 0 =
    \<lparr>rgb_r = 128, rgb_g = 109, rgb_b = 128\<rparr>"
  unfolding blend_def using cc_grey_significant by simp

lemma cc_grey: "correctColor \<lparr>rgb_r = 128, rgb_g = 128, rgb_b = 128\<rparr> ''tl-fans'' =
    Inr \<lparr>rgb_r = 128, rgb_g = 109, rgb_b = 128\<rparr>"
proof -
  have hs: "rgbToHsl (rgb_r \<lparr>rgb_r = 128, rgb_g = 128, rgb_b = 128\<rparr>) (rgb_g \<lparr>rgb_r = 128, rgb_g = 128, rgb_b = 128\<rparr>)
      (rgb_b \<lparr>rgb_r = 128, rgb_g = 128, rgb_b = 128\<rparr>) = \<lparr>hsl_h = 0, hsl_s = 0, hsl_l = 50\<rparr>"
    by (simp add: cc_grey_hsl)
  have p: "DEVICE_PROFILES ''tl-fans'' = Some tl_fans" by (simp add: DEVICE_PROFILES_def)
  show ?thesis
    unfolding correctColor_branches[OF p] hs Let_def
    by (simp add: cc_grey_rule cc_grey_direct cc_grey_sat cc_grey_blend clamp255_def)
qed

lemma cc_green_hsl_ops_1:
  "fdiv 0 255 = 0"
  "fdiv 255 255 = 1"
  "fadd 1 0 = 1"
  "fdiv 1 2 = 1 / 2"
  "fsub 1 0 = 1"
  "fdiv 1 1 = 1"
  "fsub 0 0 = 0"
  "fdiv 0 1 = 0"
  using fl_eqI[where x = "1" and j = 52]
    fl_eqI[where x = "1" and j = 52]
    fl_eqI[where x = "1 / 2" and j = 53]
    fl_eqI[where x = "1" and j = 52]
    fl_eqI[where x = "1" and j = 52]
  by (simp_all add: fl_ops fl_eval)

lemma cc_green_hsl_ops_2:
  "fadd 0 2 = 2"
  "fdiv 2 6 = 6004799503160661 / 18014398509481984"
  "fmul (6004799503160661 / 18014398509481984) 360 = 120"
  "fmul 1 100 = 100"
  "fmul (1 / 2) 100 = 50"
  using fl_eqI[where x = "2" and j = 51]
    fl_eqI[where x = "1 / 3" and j = 54]
    fl_eqI[where x = "270215977642229745 / 2251799813685248" and j = 46]
    fl_eqI[where x = "100" and j = 46]
    fl_eqI[where x = "50" and j = 47]
  by (simp_all add: fl_ops fl_eval)

lemma cc_green_hsl: "rgbToHsl 0 255 0 = \<lparr>hsl_h = 120, hsl_s = 100, hsl_l = 50\<rparr>"
  by (simp add: rgbToHsl_def js_eval cc_green_hsl_ops_1 cc_green_hsl_ops_2)

lemma cc_green_ops_1:
  "fl (23 / 20) = 2589569785738035 / 2251799813685248"
  "fmul 100 (2589569785738035 / 2251799813685248) = 8092405580431359 / 70368744177664"
  "fsub 120 120 = 0"
  "fsub 100 100 = 0"
  using fl_eqI[where x = "23 / 20" and j = 52]
    fl_eqI[where x = "64739244643450875 / 562949953421312" and j = 46]
  by (simp_all add: fl_ops fl_eval)

lemma cc_green_rule: "specialCorrection 120 (hueCorrections tl_fans) = None"
  by (simp add: tl_fans_def)

lemma cc_green_direct: "applyGeneral \<lparr>rgb_r = 0, rgb_g = 255, rgb_b = 0\<rparr> \<lparr>hsl_h = 120, hsl_s = 100, hsl_l = 50\<rparr> tl_fans =
    \<lparr>correctedR = 0, correctedG = 255, correctedB = 0, correctedHue = 120\<rparr>"
  by (simp add: applyGeneral_def tl_fans_def js_eval cc_green_ops_1)

lemma cc_green_sat: "boostSaturation \<lparr>hsl_h = 120, hsl_s = 100, hsl_l = 50\<rparr> tl_fans = 100"
  by (simp add: boostSaturation_def tl_fans_def cc_green_ops_1)

lemma cc_green_significant: "\<not> significant \<lparr>hsl_h = 120, hsl_s = 100, hsl_l = 50\<rparr>
    \<lparr>correctedR = 0, correctedG = 255, correctedB = 0, correctedHue = 120\<rparr> 100"
  by (simp add: significant_def cc_green_ops_1)

lemma cc_green_blend: "blend \<lparr>hsl_h = 120, hsl_s = 100, hsl_l = 50\<rparr>
    \<lparr>correctedR = 0, correctedG = 255, correctedB = 0, correctedHue = 120\<rparr> 100 =
    \<lparr>rgb_r = 0, rgb_g = 255, rgb_b = 0\<rparr>"
  unfolding blend_def using cc_green_significant by simp

lemma cc_green: "correctColor \<lparr>rgb_r = 0, rgb_g = 255, rgb_b = 0\<rparr> ''tl-fans'' =
    Inr \<lparr>rgb_r = 0, rgb_g = 255, rgb_b = 0\<rparr>"
proof -
  have hs: "rgbToHsl (rgb_r \<lparr>rgb_r = 0, rgb_g = 255, rgb_b = 0\<rparr>) (rgb_g \<lparr>rgb_r = 0, rgb_g = 255, rgb_b = 0\<rparr>)
      (rgb_b \<lparr>rgb_r = 0, rgb_g = 255, rgb_b = 0\<rparr>) = \<lparr>hsl_h = 120, hsl_s = 100, hsl_l = 50\<rparr>"
    by (simp add: cc_green_hsl)
  have p: "DEVICE_PROFILES ''tl-fans'' = Some tl_fans" by (simp add: DEVICE_PROFILES_def)
  show ?thesis
    unfolding correctColor_branches[OF p] hs Let_def
    by (simp add: cc_green_rule cc_green_direct cc_green_sat cc_green_blend clamp255_def)
qed

lemma rt_hsl_ops_1:
  "fdiv 0 255 = 0"
  "fdiv 125 255 = 8830587504648031 / 18014398509481984"
  "fadd (8830587504648031 / 18014398509481984) 0 = 8830587504648031 / 18014398509481984"
  "fdiv (8830587504648031 / 18014398509481984) 2 = 8830587504648031 / 36028797018963968"
  "fsub (8830587504648031 / 18014398509481984) 0 = 8830587504648031 / 18014398509481984"
  "fdiv (8830587504648031 / 18014398509481984) (8830587504648031 / 18014398509481984) = 1"
  "fsub 0 0 = 0"
  "fdiv 0 (8830587504648031 / 18014398509481984) = 0"
  using fl_eqI[where x = "25 / 51" and j = 54]
    fl_eqI[where x = "8830587504648031 / 18014398509481984" and j = 54]
    fl_eqI[where x = "8830587504648031 / 36028797018963968" and j = 55]
    fl_eqI[where x = "8830587504648031 / 18014398509481984" and j = 54]
    fl_eqI[where x = "1" and j = 52]
  by (simp_all add: fl_ops fl_eval)

lemma rt_hsl_ops_2:
  "fadd 0 4 = 4"
  "fdiv 4 6 = 6004799503160661 / 9007199254740992"
  "fmul (6004799503160661 / 9007199254740992) 360 = 240"
  "fmul 1 100 = 100"
  "fmul (8830587504648031 / 36028797018963968) 100 = 3449448244003137 / 140737488355328"
  using fl_eqI[where x = "4" and j = 50]
    fl_eqI[where x = "2 / 3" and j = 53]
    fl_eqI[where x = "270215977642229745 / 1125899906842624" and j = 45]
    fl_eqI[where x = "100" and j = 46]
    fl_eqI[where x = "220764687616200775 / 9007199254740992" and j = 48]
  by (simp_all add: fl_ops fl_eval)

lemma rt_hsl: "rgbToHsl 0 0 125 = \<lparr>hsl_h = 240, hsl_s = 100, hsl_l = 25\<rparr>"
  by (simp add: rgbToHsl_def js_eval rt_hsl_ops_1 rt_hsl_ops_2)

lemma rt_rgb_ops_1:
  "fdiv 240 360 = 6004799503160661 / 9007199254740992"
  "fdiv 100 100 = 1"
  "fdiv 25 100 = 1 / 4"
  "fadd 1 1 = 2"
  "fmul (1 / 4) 2 = 1 / 2"
  "fmul 2 (1 / 4) = 1 / 2"
  "fsub (1 / 2) (1 / 2) = 0"
  "fdiv 1 3 = 6004799503160661 / 18014398509481984"
  using fl_eqI[where x = "2 / 3" and j = 53]
    fl_eqI[where x = "1" and j = 52]
    fl_eqI[where x = "1 / 4" and j = 54]
    fl_eqI[where x = "2" and j = 51]
    fl_eqI[where x = "1 / 2" and j = 53]
    fl_eqI[where x = "1 / 2" and j = 53]
    fl_eqI[where x = "1 / 3" and j = 54]
  by (simp_all add: fl_ops fl_eval)

lemma rt_rgb_ops_2:
  "fadd (6004799503160661 / 9007199254740992) (6004799503160661 / 18014398509481984) = 1"
  "fdiv 1 6 = 6004799503160661 / 36028797018963968"
  "fdiv 1 2 = 1 / 2"
  "fdiv 2 3 = 6004799503160661 / 9007199254740992"
  "fmul 0 255 = 0"
  "fsub (6004799503160661 / 9007199254740992) (6004799503160661 / 18014398509481984) = 6004799503160661 / 18014398509481984"
  "fmul (1 / 2) 255 = 255 / 2"
  using fl_eqI[where x = "18014398509481983 / 18014398509481984" and j = 53]
    fl_eqI[where x = "1 / 6" and j = 55]
    fl_eqI[where x = "1 / 2" and j = 53]
    fl_eqI[where x = "2 / 3" and j = 53]
    fl_eqI[where x = "6004799503160661 / 18014398509481984" and j = 54]
    fl_eqI[where x = "255 / 2" and j = 46]
  by (simp_all add: fl_ops fl_eval)

lemma rt_rgb: "hslToRgb 240 100 25 = \<lparr>rgb_r = 0, rgb_g = 0, rgb_b = 128\<rparr>"
  by (simp add: hslToRgb_def hue2rgb_def js_eval rt_rgb_ops_1 rt_rgb_ops_2)
















lemma wrap_hsl_ops_1:
  "fdiv 255 255 = 1"
  "fdiv 0 255 = 0"
  "fdiv 1 255 = 282578800148737 / 72057594037927936"
  "fadd 1 0 = 1"
  "fdiv 1 2 = 1 / 2"
  "fsub 1 0 = 1"
  "fdiv 1 1 = 1"
  "fsub 0 (282578800148737 / 72057594037927936) = - (282578800148737 / 72057594037927936)"
  using fl_eqI[where x = "1" and j = 52]
    fl_eqI[where x = "1 / 255" and j = 60]
    fl_eqI[where x = "1" and j = 52]
    fl_eqI[where x = "1 / 2" and j = 53]
    fl_eqI[where x = "1" and j = 52]
    fl_eqI[where x = "1" and j = 52]
    fl_eqI[where x = "282578800148737 / 72057594037927936" and j = 60]
  by (simp_all add: fl_ops fl_eval)

lemma wrap_hsl_ops_2:
  "fdiv (- (282578800148737 / 72057594037927936)) 1 = - (282578800148737 / 72057594037927936)"
  "fadd (- (282578800148737 / 72057594037927936)) 6 = 1687746036825855 / 281474976710656"
  "fdiv (1687746036825855 / 281474976710656) 6 = 562582012275285 / 562949953421312"
  "fmul (562582012275285 / 562949953421312) 360 = 1582261909524239 / 4398046511104"
  "fmul 1 100 = 100"
  "fmul (1 / 2) 100 = 50"
  using fl_eqI[where x = "282578800148737 / 72057594037927936" and j = 60]
    fl_eqI[where x = "432062985427418879 / 72057594037927936" and j = 50]
    fl_eqI[where x = "562582012275285 / 562949953421312" and j = 53]
    fl_eqI[where x = "25316190552387825 / 70368744177664" and j = 44]
    fl_eqI[where x = "100" and j = 46]
    fl_eqI[where x = "50" and j = 47]
  by (simp_all add: fl_ops fl_eval)

lemma wrap_hsl: "rgbToHsl 255 0 1 = \<lparr>hsl_h = 360, hsl_s = 100, hsl_l = 50\<rparr>"
  by (simp add: rgbToHsl_def js_eval wrap_hsl_ops_1 wrap_hsl_ops_2)

lemma worst_hsl_ops_1:
  "fdiv 2 255 = 282578800148737 / 36028797018963968"
  "fdiv 228 255 = 8053495804239005 / 9007199254740992"
  "fdiv 230 255 = 8124140504276189 / 9007199254740992"
  "fadd (8124140504276189 / 9007199254740992) (282578800148737 / 36028797018963968) = 8194785204313373 / 9007199254740992"
  "fdiv (8194785204313373 / 9007199254740992) 2 = 8194785204313373 / 18014398509481984"
  "fsub (8124140504276189 / 9007199254740992) (282578800148737 / 36028797018963968) = 8053495804239005 / 9007199254740992"
  "fdiv (8053495804239005 / 9007199254740992) (8194785204313373 / 9007199254740992) = 2212975678966537 / 2251799813685248"
  "fsub (282578800148737 / 36028797018963968) (8053495804239005 / 9007199254740992) = - (7982851104201821 / 9007199254740992)"
  using fl_eqI[where x = "2 / 255" and j = 59]
    fl_eqI[where x = "76 / 85" and j = 53]
    fl_eqI[where x = "46 / 51" and j = 53]
    fl_eqI[where x = "32779140817253493 / 36028797018963968" and j = 53]
    fl_eqI[where x = "8194785204313373 / 18014398509481984" and j = 54]
    fl_eqI[where x = "32213983216956019 / 36028797018963968" and j = 53]
    fl_eqI[where x = "8053495804239005 / 8194785204313373" and j = 53]
    fl_eqI[where x = "31931404416807283 / 36028797018963968" and j = 53]
  by (simp_all add: fl_ops fl_eval)

lemma worst_hsl_ops_2:
  "fdiv (- (7982851104201821 / 9007199254740992)) (8053495804239005 / 9007199254740992) = - (8928188734962563 / 9007199254740992)"
  "fadd (- (8928188734962563 / 9007199254740992)) 4 = 6775152071000351 / 2251799813685248"
  "fdiv (6775152071000351 / 2251799813685248) 6 = 4516768047333567 / 9007199254740992"
  "fmul (4516768047333567 / 9007199254740992) 360 = 6351705066562829 / 35184372088832"
  "fmul (2212975678966537 / 2251799813685248) 100 = 1728887249192607 / 17592186044416"
  "fmul (8194785204313373 / 18014398509481984) 100 = 6402175940869823 / 140737488355328"
  using fl_eqI[where x = "7982851104201821 / 8053495804239005" and j = 53]
    fl_eqI[where x = "27100608284001405 / 9007199254740992" and j = 51]
    fl_eqI[where x = "6775152071000351 / 13510798882111488" and j = 53]
    fl_eqI[where x = "203254562130010515 / 1125899906842624" and j = 45]
    fl_eqI[where x = "55324391974163425 / 562949953421312" and j = 46]
    fl_eqI[where x = "204869630107834325 / 4503599627370496" and j = 47]
  by (simp_all add: fl_ops fl_eval)

lemma worst_hsl: "rgbToHsl 2 228 230 = \<lparr>hsl_h = 181, hsl_s = 98, hsl_l = 45\<rparr>"
  by (simp add: rgbToHsl_def js_eval worst_hsl_ops_1 worst_hsl_ops_2)

lemma worst_rgb_ops_1:
  "fdiv 181 360 = 1132154906325083 / 2251799813685248"
  "fdiv 98 100 = 2206763817411543 / 2251799813685248"
  "fdiv 45 100 = 8106479329266893 / 18014398509481984"
  "fadd 1 (2206763817411543 / 2251799813685248) = 4458563631096791 / 2251799813685248"
  "fmul (8106479329266893 / 18014398509481984) (4458563631096791 / 2251799813685248) = 501588408498389 / 562949953421312"
  "fmul 2 (8106479329266893 / 18014398509481984) = 8106479329266893 / 9007199254740992"
  "fsub (8106479329266893 / 9007199254740992) (501588408498389 / 562949953421312) = 81064793292669 / 9007199254740992"
  "fdiv 1 3 = 6004799503160661 / 18014398509481984"
  using fl_eqI[where x = "181 / 360" and j = 53]
    fl_eqI[where x = "49 / 50" and j = 53]
    fl_eqI[where x = "9 / 20" and j = 54]
    fl_eqI[where x = "4458563631096791 / 2251799813685248" and j = 52]
    fl_eqI[where x = "36143253913707277262927554840363 / 40564819207303340847894502572032" and j = 53]
    fl_eqI[where x = "8106479329266893 / 9007199254740992" and j = 53]
    fl_eqI[where x = "81064793292669 / 9007199254740992" and j = 59]
    fl_eqI[where x = "1 / 3" and j = 54]
  by (simp_all add: fl_ops fl_eval)

lemma worst_rgb_ops_2:
  "fadd (1132154906325083 / 2251799813685248) (6004799503160661 / 18014398509481984) = 3765509688440331 / 4503599627370496"
  "fdiv 1 6 = 6004799503160661 / 36028797018963968"
  "fdiv 1 2 = 1 / 2"
  "fdiv 2 3 = 6004799503160661 / 9007199254740992"
  "fmul (81064793292669 / 9007199254740992) 255 = 5167880572407649 / 2251799813685248"
  "fsub (501588408498389 / 562949953421312) (81064793292669 / 9007199254740992) = 7944349742681555 / 9007199254740992"
  "fsub (6004799503160661 / 9007199254740992) (1132154906325083 / 2251799813685248) = 1476179877860329 / 9007199254740992"
  "fmul (7944349742681555 / 9007199254740992) (1476179877860329 / 9007199254740992) = 5207962609091241 / 36028797018963968"
  using fl_eqI[where x = "15062038753761325 / 18014398509481984" and j = 53]
    fl_eqI[where x = "1 / 6" and j = 55]
    fl_eqI[where x = "1 / 2" and j = 53]
    fl_eqI[where x = "2 / 3" and j = 53]
    fl_eqI[where x = "20671522289630595 / 9007199254740992" and j = 51]
    fl_eqI[where x = "7944349742681555 / 9007199254740992" and j = 53]
    fl_eqI[where x = "1476179877860329 / 9007199254740992" and j = 55]
    fl_eqI[where x = "11727289232831393979840214531595 / 81129638414606681695789005144064" and j = 55]
  by (simp_all add: fl_ops fl_eval)

lemma worst_rgb_ops_3:
  "fmul (5207962609091241 / 36028797018963968) 6 = 3905971956818431 / 4503599627370496"
  "fadd (81064793292669 / 9007199254740992) (3905971956818431 / 4503599627370496) = 7893008706929531 / 9007199254740992"
  "fmul (7893008706929531 / 9007199254740992) 255 = 982772080208511 / 4398046511104"
  "fsub (1132154906325083 / 2251799813685248) (6004799503160661 / 18014398509481984) = 3052439747440003 / 18014398509481984"
  "fmul (501588408498389 / 562949953421312) 255 = 7994065260443075 / 35184372088832"
  using fl_eqI[where x = "15623887827273723 / 18014398509481984" and j = 53]
    fl_eqI[where x = "7893008706929531 / 9007199254740992" and j = 53]
    fl_eqI[where x = "2012717220267030405 / 9007199254740992" and j = 45]
    fl_eqI[where x = "3052439747440003 / 18014398509481984" and j = 55]
    fl_eqI[where x = "127905044167089195 / 562949953421312" and j = 45]
  by (simp_all add: fl_ops fl_eval)

lemma worst_rgb: "hslToRgb 181 98 45 = \<lparr>rgb_r = 2, rgb_g = 223, rgb_b = 227\<rparr>"
  by (simp add: hslToRgb_def hue2rgb_def js_eval worst_rgb_ops_1 worst_rgb_ops_2 worst_rgb_ops_3)

section \<open>The active rule\<close>



section \<open>The color category\<close>

text \<open>
  C7. On the integer hues from 0 up to 359 the category follows nine contiguous ranges:
  \<open>[0,15)\<close> red, \<open>[15,45)\<close> orange, \<open>[45,70)\<close> yellow, \<open>[70,150)\<close> green,
  \<open>[150,200)\<close> teal, \<open>[200,260)\<close> blue, \<open>[260,310)\<close> purple, \<open>[310,340)\<close> pink and
  \<open>[340,360)\<close> red again. The ranges leave no gap and do not overlap, so every such hue
  has exactly one of the eight categories, and a boundary hue has the category of the
  range that it starts.
\<close>

theorem getColorCategory_ranges:
  assumes "0 \<le> hue" "hue < 360"
  shows "getColorCategory hue =
    (if hue < 15 then ''red'' else if hue < 45 then ''orange''
     else if hue < 70 then ''yellow'' else if hue < 150 then ''green''
     else if hue < 200 then ''teal'' else if hue < 260 then ''blue''
     else if hue < 310 then ''purple'' else if hue < 340 then ''pink'' else ''red'') \<and>
    getColorCategory hue \<in>
      {''red'', ''orange'', ''yellow'', ''green'', ''teal'', ''blue'', ''purple'', ''pink''}"
  using assms by (simp add: getColorCategory_def)

theorem getColorCategory_ranges_witness:
  "(0::int) \<le> 45 \<and> (45::int) < 360 \<and> getColorCategory 45 = ''yellow'' \<and>
   getColorCategory 0 = ''red'' \<and> getColorCategory 15 = ''orange'' \<and>
   getColorCategory 70 = ''green'' \<and> getColorCategory 150 = ''teal'' \<and>
   getColorCategory 200 = ''blue'' \<and> getColorCategory 260 = ''purple'' \<and>
   getColorCategory 310 = ''pink'' \<and> getColorCategory 340 = ''red''"
  using getColorCategory_ranges[of 45] getColorCategory_ranges[of 0]
    getColorCategory_ranges[of 15] getColorCategory_ranges[of 70]
    getColorCategory_ranges[of 150] getColorCategory_ranges[of 200]
    getColorCategory_ranges[of 260] getColorCategory_ranges[of 310]
    getColorCategory_ranges[of 340]
  by simp

text \<open>
  C10. The function returns on every integer hue. A hue that is negative or at least 340,
  that is every integer outside the eight ranges that the conditions test, reaches the
  last \<open>return\<close> and is red; in particular 360 and 400 are red.
\<close>

theorem getColorCategory_fallthrough:
  "(hue < 0 \<or> 340 \<le> hue \<longrightarrow> getColorCategory hue = ''red'') \<and>
   getColorCategory 400 = ''red'' \<and> getColorCategory 360 = ''red'' \<and>
   getColorCategory (- 1) = ''red''"
  by (auto simp: getColorCategory_def)

theorem getColorCategory_fallthrough_witness:
  "(340::int) \<le> 360 \<and> rgbToHsl 255 0 1 = \<lparr>hsl_h = 360, hsl_s = 100, hsl_l = 50\<rparr> \<and>
   getColorCategory (hsl_h (rgbToHsl 255 0 1)) = ''red'' \<and>
   getColorCategory 1000 = ''red''"
  using getColorCategory_fallthrough[of 360] getColorCategory_fallthrough[of 1000]
  by (simp add: wrap_hsl)

section \<open>The ranges of the conversions and of the correction\<close>

text \<open>
  On channels in 0..255 \<open>rgbToHsl\<close> returns a hue in 0..360 and a saturation and a
  lightness in 0..100; the hue 360 is reached, at \<open>(255, 0, 1)\<close>. On a hue in
  \<open>[0, 360]\<close> and a saturation and a lightness in \<open>[0, 100]\<close>, integers or not,
  \<open>hslToRgb\<close> returns channels in 0..255: the values \<open>p\<close> and \<open>q\<close> and the results of
  \<open>hue2rgb\<close> leave \<open>[0, 1]\<close> by a few units in the last place at most, which
  \<open>Math.round\<close> absorbs. Under every profile of the table the directly corrected
  channels stay in 0..255 and the corrected hue in \<open>[0, 360]\<close>.
\<close>

lemma channel_unit:
  assumes "0 \<le> i" "i \<le> 255"
  shows "0 \<le> fdiv (of_int i) 255 \<and> fdiv (of_int i) 255 \<le> 1"
proof -
  have "(of_int i :: rat) \<le> of_int 255" using assms(2) by (simp only: of_int_le_iff)
  moreover have "(0 :: rat) \<le> of_int i" using assms(1) by simp
  ultimately have "0 \<le> (of_int i :: rat) / 255" "(of_int i :: rat) / 255 \<le> 1" by simp_all
  then show ?thesis unfolding fdiv_def by (rule fl_unit)
qed

lemma fdiv_255_idem: "fl (fdiv x 255) = fdiv x 255"
  by (simp add: fdiv_def fl_idem)

lemma rgbToHsl_range:
  assumes "0 \<le> r0" "r0 \<le> 255" "0 \<le> g0" "g0 \<le> 255" "0 \<le> b0" "b0 \<le> 255"
  shows "0 \<le> hsl_h (rgbToHsl r0 g0 b0) \<and> hsl_h (rgbToHsl r0 g0 b0) \<le> 360 \<and>
    0 \<le> hsl_s (rgbToHsl r0 g0 b0) \<and> hsl_s (rgbToHsl r0 g0 b0) \<le> 100 \<and>
    0 \<le> hsl_l (rgbToHsl r0 g0 b0) \<and> hsl_l (rgbToHsl r0 g0 b0) \<le> 100"
proof -
  define r where "r = fdiv (of_int r0) 255"
  define g where "g = fdiv (of_int g0) 255"
  define b where "b = fdiv (of_int b0) 255"
  define mx where "mx = max r (max g b)"
  define mn where "mn = min r (min g b)"
  define l where "l = fdiv (fadd mx mn) 2"
  have u: "0 \<le> r" "r \<le> 1" "0 \<le> g" "g \<le> 1" "0 \<le> b" "b \<le> 1"
    using channel_unit[OF assms(1,2)] channel_unit[OF assms(3,4)] channel_unit[OF assms(5,6)]
    by (simp_all add: r_def g_def b_def)
  have m: "0 \<le> mn" "mx \<le> 1" "mn \<le> r" "r \<le> mx" "mn \<le> g" "g \<le> mx" "mn \<le> b" "b \<le> mx"
    using u by (simp_all add: mx_def mn_def)
  have mle: "mn \<le> mx" using m by linarith
  have idem: "fl mx = mx"
    unfolding mx_def r_def g_def b_def by (auto simp: max_def fdiv_255_idem)
  have "0 \<le> mx + mn" "mx + mn \<le> 2" using m mle by linarith+
  then have "0 \<le> fl (mx + mn)" "fl (mx + mn) \<le> 2"
    using fl_between[of 0 "mx + mn" 2] by simp_all
  then have "0 \<le> fl (mx + mn) / 2" "fl (mx + mn) / 2 \<le> 1" by simp_all
  then have l: "0 \<le> l \<and> l \<le> 1" unfolding l_def fdiv_def fadd_def by (rule fl_unit)
  then have L: "0 \<le> js_round (fmul l 100) \<and> js_round (fmul l 100) \<le> 100"
    by (intro scaled_range) simp_all
  show ?thesis
  proof (cases "mx = mn")
    case True
    then have "rgbToHsl r0 g0 b0 =
        \<lparr>hsl_h = js_round (fmul 0 360), hsl_s = js_round (fmul 0 100),
         hsl_l = js_round (fmul l 100)\<rparr>"
      by (simp add: rgbToHsl_def Let_def r_def g_def b_def mx_def mn_def l_def)
    then show ?thesis using L by (simp add: fmul_def fl_zero js_round_def floor_rat_numeral)
  next
    case False
    with mle have lt: "mn < mx" by simp
    define d where "d = fsub mx mn"
    define s where "s = (if 1/2 < l then fdiv d (fsub (fsub 2 mx) mn) else fdiv d (fadd mx mn))"
    define h where "h = (if mx = r then fdiv (fadd (fdiv (fsub g b) d) (if g < b then 6 else 0)) 6
                   else if mx = g then fdiv (fadd (fdiv (fsub b r) d) 2) 6
                   else fdiv (fadd (fdiv (fsub r g) d) 4) 6)"
    have eq: "rgbToHsl r0 g0 b0 =
        \<lparr>hsl_h = js_round (fmul h 360), hsl_s = js_round (fmul s 100),
         hsl_l = js_round (fmul l 100)\<rparr>"
      using False
      by (simp add: rgbToHsl_def Let_def r_def g_def b_def mx_def mn_def l_def d_def s_def h_def)
    have "0 \<le> d" unfolding d_def fsub_def using lt by (intro fl_nonneg) simp
    moreover have "d \<noteq> 0" unfolding d_def fsub_def using lt by (simp add: fl_eq_0_iff)
    ultimately have d0: "0 < d" by simp
    have d1: "d \<le> fadd mx mn"
      unfolding d_def fsub_def fadd_def using m by (intro fl_mono) linarith
    have "fl mx \<le> fl (2 - mx)" using m by (intro fl_mono) linarith
    then have "mx - mn \<le> fl (2 - mx) - mn" by (simp add: idem)
    then have d2: "d \<le> fsub (fsub 2 mx) mn"
      unfolding d_def fsub_def by (rule fl_mono)
    have "0 \<le> s \<and> s \<le> 1"
    proof (cases "1/2 < l")
      case True
      have "0 \<le> d / fsub (fsub 2 mx) mn" "d / fsub (fsub 2 mx) mn \<le> 1"
        using d0 d2 by (simp_all add: field_simps)
      then show ?thesis using True unfolding s_def fdiv_def by (simp add: fl_unit)
    next
      case False
      have "0 \<le> d / fadd mx mn" "d / fadd mx mn \<le> 1"
        using d0 d1 by (simp_all add: field_simps)
      then show ?thesis using False unfolding s_def fdiv_def by (simp add: fl_unit)
    qed
    then have S: "0 \<le> js_round (fmul s 100) \<and> js_round (fmul s 100) \<le> 100"
      by (intro scaled_range) simp_all
    note gb = chroma_ratio[OF m(5,6,7,8) lt, folded d_def]
    note br = chroma_ratio[OF m(7,8,3,4) lt, folded d_def]
    note rg = chroma_ratio[OF m(3,4,5,6) lt, folded d_def]
    have "0 \<le> h \<and> h \<le> 1"
    proof (cases "mx = r")
      case True
      show ?thesis
      proof (cases "g < b")
        case lt: True
        have "0 \<le> fdiv (fadd (fdiv (fsub g b) d) 6) 6 \<and> fdiv (fadd (fdiv (fsub g b) d) 6) 6 \<le> 1"
          using gb(1,2) gb(3)[OF lt] by (intro hue_fraction_red) auto
        then show ?thesis using True lt by (simp add: h_def)
      next
        case ge: False
        then have "b \<le> g" by simp
        then have "0 \<le> fdiv (fadd (fdiv (fsub g b) d) 0) 6 \<and> fdiv (fadd (fdiv (fsub g b) d) 0) 6 \<le> 1"
          using gb(1,2) gb(4) by (intro hue_fraction_red) auto
        then show ?thesis using True ge by (simp add: h_def)
      qed
    next
      case nr: False
      show ?thesis
      proof (cases "mx = g")
        case True
        have "0 \<le> fdiv (fadd (fdiv (fsub b r) d) 2) 6 \<and> fdiv (fadd (fdiv (fsub b r) d) 2) 6 \<le> 1"
          using br(1,2) by (intro hue_fraction) auto
        then show ?thesis using nr True by (simp add: h_def)
      next
        case False
        have "0 \<le> fdiv (fadd (fdiv (fsub r g) d) 4) 6 \<and> fdiv (fadd (fdiv (fsub r g) d) 4) 6 \<le> 1"
          using rg(1,2) by (intro hue_fraction) auto
        then show ?thesis using nr False by (simp add: h_def)
      qed
    qed
    then have H: "0 \<le> js_round (fmul h 360) \<and> js_round (fmul h 360) \<le> 360"
      by (intro scaled_range) simp_all
    from H S L show ?thesis by (simp add: eq)
  qed
qed

lemma hue2rgb_range:
  assumes p: "- d \<le> p" "p \<le> 1 + d" and q: "- d \<le> q" "q \<le> 1 + d"
    and d: "0 \<le> d" "d \<le> 1" and t0: "- 1 \<le> t0" "t0 \<le> 2"
  shows "- d - 9 / 2 ^ 44 \<le> hue2rgb p q t0 \<and> hue2rgb p q t0 \<le> 1 + d + 9 / 2 ^ 44"
proof -
  define e :: rat where "e = 1 / 2 ^ 44"
  have e: "0 < e" "e \<le> 1 / 1000" by (simp_all add: e_def)
  have near: "x - e \<le> fl x \<and> fl x \<le> x + e" if "\<bar>x\<bar> \<le> 512" for x
    using fl_near[OF that] by (simp add: e_def)
  define t1 where "t1 = (if t0 < 0 then fadd t0 1 else t0)"
  define t where "t = (if 1 < t1 then fsub t1 1 else t1)"
  have t1: "0 \<le> t1" "t1 \<le> 2"
  proof -
    have "0 \<le> fl (t0 + 1) \<and> fl (t0 + 1) \<le> 1" if "t0 < 0"
      using that t0 by (intro fl_unit) linarith+
    then show "0 \<le> t1" "t1 \<le> 2" using t0 by (auto simp: t1_def fadd_def)
  qed
  have t: "0 \<le> t" "t \<le> 2"
  proof -
    have "0 \<le> fl (t1 - 1) \<and> fl (t1 - 1) \<le> 1" if "1 < t1"
      using that t1 by (intro fl_unit) linarith+
    then show "0 \<le> t" "t \<le> 2" using t1 by (auto simp: t_def fsub_def)
  qed
  define X where "X = q - p"
  define D where "D = fsub q p"
  have X: "\<bar>X\<bar> \<le> 3" using p q d by (simp add: X_def abs_if)
  have D: "X - e \<le> D" "D \<le> X + e"
    using near[of "q - p"] X by (simp_all add: D_def fsub_def X_def)
  have eq: "hue2rgb p q t0 =
    (if t < fdiv 1 6 then fadd p (fmul (fmul D 6) t)
     else if t < fdiv 1 2 then q
     else if t < fdiv 2 3 then fadd p (fmul (fmul D (fsub (fdiv 2 3) t)) 6)
     else p)"
    by (simp add: hue2rgb_def Let_def t_def t1_def D_def)
  have lo: "- d \<le> p + \<theta> * X" and hi: "p + \<theta> * X \<le> 1 + d" if "0 \<le> \<theta>" "\<theta> \<le> 1" for \<theta>
    using convex_bound[OF p(1,2) q(1,2) that] by (simp_all add: X_def)
  consider "t < fdiv 1 6" | "\<not> t < fdiv 1 6" "t < fdiv 1 2"
    | "\<not> t < fdiv 1 6" "\<not> t < fdiv 1 2" "t < fdiv 2 3"
    | "\<not> t < fdiv 1 6" "\<not> t < fdiv 1 2" "\<not> t < fdiv 2 3" by blast
  then show ?thesis
  proof cases
    case 1
    then have t6: "t \<le> 1 / 6" by (simp add: fdiv_constants)
    define D6 where "D6 = fmul D 6"
    define E where "E = D6 - 6 * X"
    have "\<bar>D * 6\<bar> \<le> 512" using D X e by linarith
    from near[OF this] have "D * 6 - e \<le> D6" "D6 \<le> D * 6 + e"
      by (simp_all add: D6_def fmul_def)
    with D have E: "\<bar>E\<bar> \<le> 7 * e" unfolding E_def by linarith
    have Et: "\<bar>E * t\<bar> \<le> 7 * e * (1 / 6)" using E t(1) t6 by (rule small_product)
    have "\<bar>X * (6 * t)\<bar> \<le> 3 * 1"
      using X t(1) t6 by (intro small_product) linarith+
    then have Xt: "\<bar>(6 * t) * X\<bar> \<le> 3" by (simp add: mult.commute)
    have split: "D6 * t = p + (6 * t) * X - p + E * t" by (simp add: E_def algebra_simps)
    define M where "M = fmul D6 t"
    have "\<bar>D6 * t\<bar> \<le> 512" using Et Xt e unfolding split by linarith
    from near[OF this] have M: "D6 * t - e \<le> M" "M \<le> D6 * t + e"
      by (simp_all add: M_def fmul_def)
    have c: "- d \<le> p + (6 * t) * X" "p + (6 * t) * X \<le> 1 + d"
      using lo[of "6 * t"] hi[of "6 * t"] t(1) t6 by simp_all
    have "\<bar>p + M\<bar> \<le> 512" using M c Et e d unfolding split by linarith
    from near[OF this] have "p + M - e \<le> fadd p M" "fadd p M \<le> p + M + e"
      by (simp_all add: fadd_def)
    with M c Et e have "- d - 9 * e \<le> fadd p M \<and> fadd p M \<le> 1 + d + 9 * e"
      unfolding split by linarith
    then show ?thesis using 1 by (simp add: eq M_def D6_def e_def)
  next
    case 2
    then show ?thesis using q by (simp add: eq)
  next
    case 3
    then have th: "1 / 2 \<le> t" "t < 2 / 3" by (simp_all add: fdiv_constants)
    define u where "u = fsub (fdiv 2 3) t"
    have "0 \<le> fdiv 2 3 - t" using 3 by simp
    then have u0: "0 \<le> u" unfolding u_def fsub_def by (rule fl_nonneg)
    have "fdiv 2 3 - t \<le> 1 / 6" using th by (simp add: fdiv_constants)
    then have "fl (fdiv 2 3 - t) \<le> fl (1 / 6)" by (rule fl_mono)
    then have u6: "u \<le> 1 / 6" using fdiv_constants(1) by (simp add: u_def fsub_def fdiv_def)
    define DU where "DU = fmul D u"
    define E where "E = D - X"
    have E: "\<bar>E\<bar> \<le> e" using D unfolding E_def by linarith
    have Eu: "\<bar>E * u\<bar> \<le> e * (1 / 6)" using E u0 u6 by (rule small_product)
    have Xu: "\<bar>X * u\<bar> \<le> 3 * (1 / 6)" using X u0 u6 by (rule small_product)
    have split: "D * u = X * u + E * u" by (simp add: E_def algebra_simps)
    have "\<bar>D * u\<bar> \<le> 512" using Eu Xu e unfolding split by linarith
    from near[OF this] have DU: "D * u - e \<le> DU" "DU \<le> D * u + e"
      by (simp_all add: DU_def fmul_def)
    define M where "M = fmul DU 6"
    have "\<bar>DU * 6\<bar> \<le> 512" using DU Eu Xu e unfolding split by linarith
    from near[OF this] have M: "DU * 6 - e \<le> M" "M \<le> DU * 6 + e"
      by (simp_all add: M_def fmul_def)
    have c: "- d \<le> p + (6 * u) * X" "p + (6 * u) * X \<le> 1 + d"
      using lo[of "6 * u"] hi[of "6 * u"] u0 u6 by simp_all
    have c': "(6 * u) * X = 6 * (X * u)" by simp
    have "\<bar>p + M\<bar> \<le> 512" using M DU c Eu e d unfolding split c' by linarith
    from near[OF this] have "p + M - e \<le> fadd p M" "fadd p M \<le> p + M + e"
      by (simp_all add: fadd_def)
    with M DU c Eu e have "- d - 9 * e \<le> fadd p M \<and> fadd p M \<le> 1 + d + 9 * e"
      unfolding split c' by linarith
    then show ?thesis using 3 by (simp add: eq M_def DU_def u_def e_def)
  next
    case 4
    then show ?thesis using p by (simp add: eq)
  qed
qed

lemma pq_range:
  assumes s: "0 \<le> s" "s \<le> 1" "fl s = s" and l: "0 \<le> l" "l \<le> 1" "fl l = l"
    and "q = (if l < 1/2 then fmul l (fadd 1 s) else fsub (fadd l s) (fmul l s))"
    and "p = fsub (fmul 2 l) q"
  shows "- (5 / 2 ^ 44) \<le> p \<and> p \<le> 1 + 5 / 2 ^ 44 \<and> - (5 / 2 ^ 44) \<le> q \<and> q \<le> 1 + 5 / 2 ^ 44"
proof -
  define e :: rat where "e = 1 / 2 ^ 44"
  have e: "0 < e" "e \<le> 1 / 1000" by (simp_all add: e_def)
  have near: "x - e \<le> fl x \<and> fl x \<le> x + e" if "\<bar>x\<bar> \<le> 512" for x
    using fl_near[OF that] by (simp add: e_def)
  have "- (5 * e) \<le> p \<and> p \<le> 1 + 5 * e \<and> - (5 * e) \<le> q \<and> q \<le> 1 + 5 * e"
  proof (cases "l < 1/2")
    case True
    define A where "A = fadd 1 s"
    have "of_int 1 \<le> fl (1 + s)" "fl (1 + s) \<le> of_int 2"
      using fl_between[of 1 "1 + s" 2] s by simp_all
    then have A: "1 \<le> A" "A \<le> 2" by (simp_all add: A_def fadd_def)
    have q: "q = fl (l * A)" using True by (simp add: assms(7) fmul_def A_def)
    have "l * A \<le> l * 2" using A l by (intro mult_left_mono) auto
    then have lA: "l * A \<le> 2 * l" by simp
    have "0 \<le> l * A" using A l by (intro mult_nonneg_nonneg) auto
    then have q0: "0 \<le> q" unfolding q by (rule fl_nonneg)
    have q2: "q \<le> fl (2 * l)" unfolding q using lA by (rule fl_mono)
    have "0 \<le> 2 * l" "2 * l \<le> 1" using l True by simp_all
    then have l2: "0 \<le> fl (2 * l) \<and> fl (2 * l) \<le> 1" by (rule fl_unit)
    with q2 have q1: "q \<le> 1" by simp
    have "0 \<le> fl (2 * l) - q" "fl (2 * l) - q \<le> 1" using q2 q0 l2 by simp_all
    then have "0 \<le> fl (fl (2 * l) - q) \<and> fl (fl (2 * l) - q) \<le> 1" by (rule fl_unit)
    then have "0 \<le> p \<and> p \<le> 1" by (simp add: assms(8) fsub_def fmul_def)
    with q0 q1 e show ?thesis by simp
  next
    case False
    then have lh: "1 / 2 \<le> l" by simp
    define ls where "ls = l * s"
    have ls: "0 \<le> ls" "ls \<le> s" "ls \<le> l" "l + s - ls \<le> 1"
    proof -
      show "0 \<le> ls" unfolding ls_def using s l by (intro mult_nonneg_nonneg)
      show "ls \<le> s" unfolding ls_def using s l by (simp add: mult_le_cancel_right2)
      show "ls \<le> l" unfolding ls_def using s l by (simp add: mult_le_cancel_left2)
      have "0 \<le> (1 - l) * (1 - s)" using s l by (intro mult_nonneg_nonneg) auto
      then show "l + s - ls \<le> 1" by (simp add: ls_def algebra_simps)
    qed
    define A where "A = fadd l s"
    define B where "B = fmul l s"
    have A: "l + s - e \<le> A" "A \<le> l + s + e"
      using near[of "l + s"] s l by (simp_all add: A_def fadd_def)
    have B: "ls - e \<le> B" "B \<le> ls + e"
      using near[of "l * s"] ls s by (simp_all add: B_def fmul_def ls_def)
    have q: "q = fl (A - B)" using False by (simp add: assms(7) fsub_def A_def B_def)
    have "\<bar>A - B\<bar> \<le> 512" using A B ls s l e by linarith
    from near[OF this] have q': "A - B - e \<le> q" "q \<le> A - B + e" by (simp_all add: q)
    have L2: "2 * l - e \<le> fl (2 * l)" "fl (2 * l) \<le> 2 * l + e"
      using near[of "2 * l"] l by simp_all
    have "\<bar>fl (2 * l) - q\<bar> \<le> 512" using L2 q' A B ls s l e by linarith
    from near[OF this] have p': "fl (2 * l) - q - e \<le> p" "p \<le> fl (2 * l) - q + e"
      by (simp_all add: assms(8) fsub_def fmul_def)
    have "s - ls \<le> 1 - l"
    proof -
      have "s * (1 - l) \<le> 1 * (1 - l)" using s l by (intro mult_right_mono) auto
      then show ?thesis by (simp add: ls_def algebra_simps)
    qed
    with p' q' L2 A B ls s l lh e show ?thesis by linarith
  qed
  then show ?thesis by (simp add: e_def)
qed

lemma hslToRgb_range:
  assumes "0 \<le> h0" "h0 \<le> 360" "0 \<le> s0" "s0 \<le> 100" "0 \<le> l0" "l0 \<le> 100"
  shows "0 \<le> rgb_r (hslToRgb h0 s0 l0) \<and> rgb_r (hslToRgb h0 s0 l0) \<le> 255 \<and>
    0 \<le> rgb_g (hslToRgb h0 s0 l0) \<and> rgb_g (hslToRgb h0 s0 l0) \<le> 255 \<and>
    0 \<le> rgb_b (hslToRgb h0 s0 l0) \<and> rgb_b (hslToRgb h0 s0 l0) \<le> 255"
proof -
  define h where "h = fdiv h0 360"
  define s where "s = fdiv s0 100"
  define l where "l = fdiv l0 100"
  have h: "0 \<le> h \<and> h \<le> 1" unfolding h_def fdiv_def using assms by (intro fl_unit) simp_all
  have s: "0 \<le> s \<and> s \<le> 1" unfolding s_def fdiv_def using assms by (intro fl_unit) simp_all
  have l: "0 \<le> l \<and> l \<le> 1" unfolding l_def fdiv_def using assms by (intro fl_unit) simp_all
  have idem: "fl s = s" "fl l = l" by (simp_all add: s_def l_def fdiv_def fl_idem)
  show ?thesis
  proof (cases "s = 0")
    case True
    have "0 \<le> js_round (fmul l 255) \<and> js_round (fmul l 255) \<le> 255"
      using l by (intro scaled_range) simp_all
    then show ?thesis using True by (simp add: hslToRgb_def Let_def s_def l_def)
  next
    case False
    define q where "q = (if l < 1/2 then fmul l (fadd 1 s) else fsub (fadd l s) (fmul l s))"
    define p where "p = fsub (fmul 2 l) q"
    define d :: rat where "d = 5 / 2 ^ 44"
    have d: "0 \<le> d" "d \<le> 1" by (simp_all add: d_def)
    have pq: "- d \<le> p" "p \<le> 1 + d" "- d \<le> q" "q \<le> 1 + d"
      using pq_range[OF _ _ idem(1) _ _ idem(2) q_def p_def] s l by (simp_all add: d_def)
    have third: "0 \<le> fdiv 1 3" "fdiv 1 3 \<le> 1" by (simp_all add: fdiv_constants)
    have ch: "0 \<le> js_round (fmul (hue2rgb p q t0) 255) \<and> js_round (fmul (hue2rgb p q t0) 255) \<le> 255"
      if "- 1 \<le> t0" "t0 \<le> 2" for t0
    proof -
      define R where "R = hue2rgb p q t0"
      have R: "- d - 9 / 2 ^ 44 \<le> R" "R \<le> 1 + d + 9 / 2 ^ 44"
        using hue2rgb_range[OF pq d that] by (simp_all add: R_def)
      then have R': "- (1 / 1000) \<le> R" "R \<le> 1 + 1 / 1000" by (simp_all add: d_def)
      then have "\<bar>R * 255\<bar> \<le> 512" by linarith
      from fl_near[OF this] have "R * 255 - 1 / 2 ^ 44 \<le> fmul R 255" "fmul R 255 \<le> R * 255 + 1 / 2 ^ 44"
        by (simp_all add: fmul_def)
      with R have "of_int 0 - 1 / 2 \<le> fmul R 255" "fmul R 255 < of_int 255 + 1 / 2"
        by (simp_all add: d_def)
      then show ?thesis unfolding R_def[symmetric] by (intro conjI js_round_between)
    qed
    have t1: "- 1 \<le> fadd h (fdiv 1 3)" "fadd h (fdiv 1 3) \<le> 2"
      using fl_between[of "- 1" "h + fdiv 1 3" 2] h third by (simp_all add: fadd_def)
    have t3: "- 1 \<le> fsub h (fdiv 1 3)" "fsub h (fdiv 1 3) \<le> 2"
      using fl_between[of "- 1" "h - fdiv 1 3" 2] h third by (simp_all add: fsub_def)
    have t2: "- 1 \<le> h" "h \<le> 2" using h by simp_all
    have eq: "hslToRgb h0 s0 l0 =
      \<lparr>rgb_r = js_round (fmul (hue2rgb p q (fadd h (fdiv 1 3))) 255),
       rgb_g = js_round (fmul (hue2rgb p q h) 255),
       rgb_b = js_round (fmul (hue2rgb p q (fsub h (fdiv 1 3))) 255)\<rparr>"
      using False by (simp add: hslToRgb_def Let_def h_def s_def l_def p_def q_def)
    show ?thesis unfolding eq using ch[OF t1] ch[OF t2] ch[OF t3] by simp
  qed
qed

lemma scaled_channel:
  assumes "0 \<le> n" "n \<le> 255" "0 \<le> m" "m \<le> 1"
  shows "0 \<le> js_round (fmul (of_int n) m) \<and> js_round (fmul (of_int n) m) \<le> 255"
proof -
  have n: "(0::rat) \<le> of_int n" "(of_int n :: rat) \<le> 255"
    using assms(1,2) by simp_all
  have "0 \<le> of_int n * m" using n assms by (intro mult_nonneg_nonneg)
  moreover have "of_int n * m \<le> 255 * 1" using n assms by (intro mult_mono) auto
  ultimately have "0 \<le> fl (of_int n * m) \<and> fl (of_int n * m) \<le> 255"
    by (intro fl_range) simp_all
  then show ?thesis unfolding fmul_def by (intro js_round_range) simp_all
qed

lemma unit_complement:
  assumes "0 \<le> x" "x \<le> 1"
  shows "0 \<le> fsub 1 x \<and> fsub 1 x \<le> 1"
  unfolding fsub_def using assms by (intro fl_unit) simp_all

lemma unit_product:
  assumes "0 \<le> x" "x \<le> 1" "0 \<le> y" "y \<le> 1"
  shows "0 \<le> fmul x y \<and> fmul x y \<le> 1"
proof -
  have "0 \<le> x * y" using assms by (intro mult_nonneg_nonneg)
  moreover have "x * y \<le> 1 * 1" using assms by (intro mult_mono) auto
  ultimately show ?thesis unfolding fmul_def by (intro fl_unit) simp_all
qed

lemma applySpecial_range:
  assumes c: "0 \<le> rgb_r c" "rgb_r c \<le> 255" "0 \<le> rgb_g c" "rgb_g c \<le> 255"
      "0 \<le> rgb_b c" "rgb_b c \<le> 255"
    and g: "\<forall>m. greenMultiplier sc = Some m \<longrightarrow> 0 \<le> m \<and> m \<le> 1"
    and b: "\<forall>m. blueMultiplier sc = Some m \<longrightarrow> 0 \<le> m \<and> m \<le> 1"
    and "v = applySpecial c hs sc"
  shows "0 \<le> correctedR v \<and> correctedR v \<le> 255 \<and> 0 \<le> correctedG v \<and> correctedG v \<le> 255 \<and>
    0 \<le> correctedB v \<and> correctedB v \<le> 255 \<and> 0 \<le> correctedHue v \<and> correctedHue v \<le> 360"
proof -
  have G: "0 \<le> correctedG v \<and> correctedG v \<le> 255"
  proof (cases "greenMultiplier sc")
    case None
    then show ?thesis using c by (simp add: assms(9) applySpecial_def)
  next
    case (Some m)
    with g have "0 \<le> m" "m \<le> 1" by simp_all
    from scaled_channel[OF c(3,4) this] Some show ?thesis by (simp add: assms(9) applySpecial_def)
  qed
  have B: "0 \<le> correctedB v \<and> correctedB v \<le> 255"
  proof (cases "blueMultiplier sc")
    case None
    then show ?thesis using c by (simp add: assms(9) applySpecial_def)
  next
    case (Some m)
    with b have "0 \<le> m" "m \<le> 1" by simp_all
    from scaled_channel[OF c(5,6) this] Some show ?thesis by (simp add: assms(9) applySpecial_def)
  qed
  have "0 \<le> correctedHue v \<and> correctedHue v \<le> 360"
    by (simp add: assms(9) applySpecial_def)
  with G B c show ?thesis by (simp add: assms(9) applySpecial_def)
qed

lemma applyGeneral_range:
  assumes c: "0 \<le> rgb_r c" "rgb_r c \<le> 255" "0 \<le> rgb_g c" "rgb_g c \<le> 255"
      "0 \<le> rgb_b c" "rgb_b c \<le> 255"
    and h: "0 \<le> hsl_h hs" "hsl_h hs \<le> 360"
    and p: "0 \<le> greenReduction p" "greenReduction p \<le> 1" "0 \<le> blueReduction p"
      "blueReduction p \<le> 1" "profile.hueShift p \<le> 0"
    and "v = applyGeneral c hs p"
  shows "0 \<le> correctedR v \<and> correctedR v \<le> 255 \<and> 0 \<le> correctedG v \<and> correctedG v \<le> 255 \<and>
    0 \<le> correctedB v \<and> correctedB v \<le> 255 \<and> 0 \<le> correctedHue v \<and> correctedHue v \<le> 360"
proof -
  define H :: rat where "H = of_int (hsl_h hs)"
  have H: "0 \<le> H" "H \<le> 360" using h by (simp_all add: H_def)
  have R: "correctedR v = rgb_r c" by (simp add: assms(14) applyGeneral_def Let_def)
  have G: "0 \<le> correctedG v \<and> correctedG v \<le> 255 \<and> 0 \<le> correctedHue v \<and> correctedHue v \<le> 360"
  proof (cases "0 \<le> hsl_h hs \<and> hsl_h hs \<le> 90")
    case True
    then have H90: "H \<le> 90" by (simp add: H_def)
    define wf where "wf = fsub 1 (fdiv H 90)"
    have "0 \<le> H / 90" "H / 90 \<le> 1" using H H90 by simp_all
    then have "0 \<le> fdiv H 90 \<and> fdiv H 90 \<le> 1" unfolding fdiv_def by (rule fl_unit)
    then have wf: "0 \<le> wf" "wf \<le> 1" unfolding wf_def using unit_complement by simp_all
    have gr: "0 \<le> fsub 1 (greenReduction p)" "fsub 1 (greenReduction p) \<le> 1"
      using unit_complement[OF p(1,2)] by simp_all
    have "0 \<le> fmul wf (fsub 1 (greenReduction p)) \<and> fmul wf (fsub 1 (greenReduction p)) \<le> 1"
      using wf gr by (intro unit_product)
    then have "0 \<le> fsub 1 (fmul wf (fsub 1 (greenReduction p))) \<and>
        fsub 1 (fmul wf (fsub 1 (greenReduction p))) \<le> 1"
      using unit_complement by simp
    then have g: "0 \<le> js_round (fmul (of_int (rgb_g c)) (fsub 1 (fmul wf (fsub 1 (greenReduction p))))) \<and>
        js_round (fmul (of_int (rgb_g c)) (fsub 1 (fmul wf (fsub 1 (greenReduction p))))) \<le> 255"
      using c by (intro scaled_channel) simp_all
    have "of_int (profile.hueShift p) * wf \<le> 0"
      using p(5) wf by (simp add: mult_le_0_iff)
    then have "fmul (of_int (profile.hueShift p)) wf \<le> 0" unfolding fmul_def by (rule fl_nonpos)
    then have "H + fmul (of_int (profile.hueShift p)) wf \<le> of_int 360" using H by simp
    then have "fl (H + fmul (of_int (profile.hueShift p)) wf) \<le> fl (of_int 360)" by (rule fl_mono)
    then have "fadd H (fmul (of_int (profile.hueShift p)) wf) \<le> 360"
      using fl_of_int[of 360] by (simp add: fadd_def)
    then have hue: "0 \<le> max 0 (fadd H (fmul (of_int (profile.hueShift p)) wf)) \<and>
        max 0 (fadd H (fmul (of_int (profile.hueShift p)) wf)) \<le> 360" by simp
    have "\<not> 200 \<le> hsl_h hs" using True by simp
    then show ?thesis using True g hue
      by (simp add: assms(14) applyGeneral_def Let_def wf_def H_def)
  next
    case False
    then show ?thesis using c H
      by (auto simp add: assms(14) applyGeneral_def Let_def H_def)
  qed
  have B: "0 \<le> correctedB v \<and> correctedB v \<le> 255"
  proof (cases "200 \<le> hsl_h hs \<and> hsl_h hs \<le> 340")
    case True
    define cf where "cf = fsub 1 \<bar>fdiv (fsub H 270) 70\<bar>"
    have "- 70 \<le> H - 270" "H - 270 \<le> 70" using True by (simp_all add: H_def)
    then have "of_int (- 70) \<le> fl (H - 270)" "fl (H - 270) \<le> of_int 70"
      using fl_between[of "- 70" "H - 270" 70] by simp_all
    then have "- 1 \<le> fsub H 270 / 70" "fsub H 270 / 70 \<le> 1" by (simp_all add: fsub_def)
    then have "- 1 \<le> fdiv (fsub H 270) 70 \<and> fdiv (fsub H 270) 70 \<le> 1"
      unfolding fdiv_def by (rule fl_sym_unit)
    then have "0 \<le> \<bar>fdiv (fsub H 270) 70\<bar>" "\<bar>fdiv (fsub H 270) 70\<bar> \<le> 1" by linarith+
    then have cf: "0 \<le> cf" "cf \<le> 1" unfolding cf_def using unit_complement by simp_all
    have br: "0 \<le> fsub 1 (blueReduction p)" "fsub 1 (blueReduction p) \<le> 1"
      using unit_complement[OF p(3,4)] by simp_all
    have bra: "0 \<le> fmul cf (fsub 1 (blueReduction p))" "fmul cf (fsub 1 (blueReduction p)) \<le> 1"
      using unit_product[OF cf br] by simp_all
    have t: "0 \<le> fl (3 / 10)" "fl (3 / 10) \<le> 1"
      by (simp_all add: fl_nonneg fl_le_one)
    have "0 \<le> fmul (fmul cf (fsub 1 (blueReduction p))) (fl (3 / 10))"
      "fmul (fmul cf (fsub 1 (blueReduction p))) (fl (3 / 10)) \<le> 1"
      using unit_product[OF bra t] by simp_all
    then have "0 \<le> fsub 1 (fmul (fmul cf (fsub 1 (blueReduction p))) (fl (3 / 10))) \<and>
        fsub 1 (fmul (fmul cf (fsub 1 (blueReduction p))) (fl (3 / 10))) \<le> 1"
      using unit_complement by simp
    then have "0 \<le> js_round (fmul (of_int (rgb_b c))
          (fsub 1 (fmul (fmul cf (fsub 1 (blueReduction p))) (fl (3 / 10))))) \<and>
        js_round (fmul (of_int (rgb_b c))
          (fsub 1 (fmul (fmul cf (fsub 1 (blueReduction p))) (fl (3 / 10))))) \<le> 255"
      using c by (intro scaled_channel) simp_all
    then show ?thesis using True
      by (simp add: assms(14) applyGeneral_def Let_def cf_def H_def)
  next
    case False
    then show ?thesis using c
      by (auto simp add: assms(14) applyGeneral_def Let_def)
  qed
  from R G B c show ?thesis by simp
qed

lemma average_range:
  assumes "0 \<le> x" "x \<le> 255" "0 \<le> y" "y \<le> 255"
  shows "average x y = (x + y + 1) div 2" "0 \<le> average x y" "average x y \<le> 255"
proof -
  have "\<bar>x + y\<bar> < 2 ^ 53" using assms by simp
  then have "fadd (of_int x) (of_int y) = of_int (x + y)"
    using fl_of_int[of "x + y"] by (simp add: fadd_def)
  moreover have "fl (of_int (x + y) / 2) = of_int (x + y) / 2"
    using \<open>\<bar>x + y\<bar> < 2 ^ 53\<close> by (rule fl_half)
  ultimately have "fdiv (fadd (of_int x) (of_int y)) 2 = of_int (x + y) / 2"
    by (simp only: fdiv_def)
  then show a: "average x y = (x + y + 1) div 2"
    unfolding average_def by (simp only: js_round_half)
  show "0 \<le> average x y" "average x y \<le> 255" unfolding a using assms by auto
qed

lemma clamp255_id: "0 \<le> x \<Longrightarrow> x \<le> 255 \<Longrightarrow> clamp255 x = x"
  by (simp add: clamp255_def)

lemma corrected_range:
  assumes reg: "DEVICE_PROFILES key = Some p"
    and c: "0 \<le> rgb_r c" "rgb_r c \<le> 255" "0 \<le> rgb_g c" "rgb_g c \<le> 255"
      "0 \<le> rgb_b c" "rgb_b c \<le> 255"
    and hs: "hs = rgbToHsl (rgb_r c) (rgb_g c) (rgb_b c)"
    and v: "v = (case specialCorrection (hsl_h hs) (hueCorrections p) of
                Some sc \<Rightarrow> applySpecial c hs sc
              | None \<Rightarrow> applyGeneral c hs p)"
  shows "0 \<le> correctedR v \<and> correctedR v \<le> 255 \<and> 0 \<le> correctedG v \<and> correctedG v \<le> 255 \<and>
    0 \<le> correctedB v \<and> correctedB v \<le> 255 \<and> 0 \<le> correctedHue v \<and> correctedHue v \<le> 360"
proof -
  note pb = profile_bounds[OF reg]
  note hr = rgbToHsl_range[OF c, folded hs]
  show ?thesis
  proof (cases "specialCorrection (hsl_h hs) (hueCorrections p)")
    case None
    then have "v = applyGeneral c hs p" by (simp add: v)
    then show ?thesis using pb hr by (intro applyGeneral_range[OF c]) simp_all
  next
    case (Some sc)
    then have "sc \<in> set (hueCorrections p)" by (rule specialCorrection_in_set)
    with pb have "\<forall>m. greenMultiplier sc = Some m \<longrightarrow> 0 \<le> m \<and> m \<le> 1"
      "\<forall>m. blueMultiplier sc = Some m \<longrightarrow> 0 \<le> m \<and> m \<le> 1" by blast+
    moreover have "v = applySpecial c hs sc" using Some by (simp add: v)
    ultimately show ?thesis by (intro applySpecial_range[OF c])
  qed
qed

section \<open>The range of the corrected color\<close>

text \<open>
  C1. For a color with channels in 0..255 and a key of the profile table,
  \<open>correctColor\<close> returns a color, and each of its channels is an integer between 0 and
  255.
\<close>

theorem correctColor_in_range:
  assumes "DEVICE_PROFILES key = Some p"
    and "0 \<le> rgb_r c" "rgb_r c \<le> 255" "0 \<le> rgb_g c" "rgb_g c \<le> 255"
      "0 \<le> rgb_b c" "rgb_b c \<le> 255"
  shows "\<exists>out. correctColor c key = Inr out \<and>
    0 \<le> rgb_r out \<and> rgb_r out \<le> 255 \<and>
    0 \<le> rgb_g out \<and> rgb_g out \<le> 255 \<and>
    0 \<le> rgb_b out \<and> rgb_b out \<le> 255"
  using assms(1) by (simp add: correctColor_def Let_def clamp255_def)

theorem correctColor_in_range_witness:
  "DEVICE_PROFILES ''tl-fans'' = Some tl_fans \<and>
   correctColor \<lparr>rgb_r = 255, rgb_g = 102, rgb_b = 0\<rparr> ''tl-fans'' =
     Inr \<lparr>rgb_r = 255, rgb_g = 34, rgb_b = 0\<rparr> \<and>
   (\<exists>out. correctColor \<lparr>rgb_r = 255, rgb_g = 102, rgb_b = 0\<rparr> ''tl-fans'' = Inr out \<and>
      0 \<le> rgb_r out \<and> rgb_r out \<le> 255 \<and>
      0 \<le> rgb_g out \<and> rgb_g out \<le> 255 \<and>
      0 \<le> rgb_b out \<and> rgb_b out \<le> 255)"
  using correctColor_in_range[OF DEVICE_PROFILES_tl_fans,
      of "\<lparr>rgb_r = 255, rgb_g = 102, rgb_b = 0\<rparr>"]
    DEVICE_PROFILES_tl_fans cc_orange
  by simp

section \<open>Hexadecimal notation\<close>

lemma of_char_inj_nat: "(of_char c :: nat) = of_char d \<Longrightarrow> c = d"
  by simp

lemma isHexChar_iff: "isHexChar c \<longleftrightarrow> c \<in> set ''0123456789abcdefABCDEF''"
proof
  define n where "n = (of_char c :: nat)"
  assume "isHexChar c"
  then have "(97 \<le> n \<and> n \<le> 102) \<or> (65 \<le> n \<and> n \<le> 70) \<or> (48 \<le> n \<and> n \<le> 57)"
    by (simp add: isHexChar_def n_def Let_def)
  then have "n \<in> {97, 98, 99, 100, 101, 102, 65, 66, 67, 68, 69, 70,
      48, 49, 50, 51, 52, 53, 54, 55, 56, 57}"
    by simp presburger
  then have "n \<in> of_char ` set ''0123456789abcdefABCDEF''" by auto
  then obtain d where d: "d \<in> set ''0123456789abcdefABCDEF''" "of_char c = (of_char d :: nat)"
    unfolding n_def by blast
  from d(2) have "c = d" by (rule of_char_inj_nat)
  with d(1) show "c \<in> set ''0123456789abcdefABCDEF''" by simp
next
  assume "c \<in> set ''0123456789abcdefABCDEF''"
  then show "isHexChar c" by (auto simp: isHexChar_def)
qed

lemma hex_char_facts:
  assumes "isHexChar c"
  shows "0 \<le> digitValue c" "digitValue c < 16"
    "upperChar (hexDigit (nat (digitValue c))) = upperChar c"
  using assms unfolding isHexChar_iff
  by (auto simp: digitValue_def hexDigit_def upperChar_def char_of_eq_iff)

lemma hexDigit_facts:
  assumes "d < 16"
  shows "isHexChar (upperChar (hexDigit d))" "digitValue (upperChar (hexDigit d)) = int d"
proof -
  have "d = 0 \<or> d = 1 \<or> d = 2 \<or> d = 3 \<or> d = 4 \<or> d = 5 \<or> d = 6 \<or> d = 7 \<or> d = 8 \<or>
      d = 9 \<or> d = 10 \<or> d = 11 \<or> d = 12 \<or> d = 13 \<or> d = 14 \<or> d = 15"
    using assms by presburger
  then have d: "d \<in> {0, 1, 2, 3, 4, 5, 6, 7, 8, 9, 10, 11, 12, 13, 14, 15}" by simp
  then show "isHexChar (upperChar (hexDigit d))"
    by (auto simp: hexDigit_def upperChar_def isHexChar_def)
  from d show "digitValue (upperChar (hexDigit d)) = int d"
    by (auto simp: hexDigit_def upperChar_def digitValue_def)
qed

lemma toHex_byte:
  assumes "0 \<le> n" "n \<le> 255"
  shows "toHex (of_int n) = [hexDigit (nat n div 16), hexDigit (nat n mod 16)]"
proof -
  have c: "min 255 n = n" "max 0 n = n" using assms by simp_all
  have d: "nat n div 16 < 16" using assms by simp
  show ?thesis
  proof (cases "nat n < 16")
    case True
    then have "toString16 (nat n) = [hexDigit (nat n)]" by (simp add: toString16.simps)
    with True show ?thesis by (simp add: toHex_def js_round_of_int c hexDigit_def Let_def)
  next
    case False
    then have "toString16 (nat n) = toString16 (nat n div 16) @ [hexDigit (nat n mod 16)]"
      by (subst toString16.simps) simp
    also have "toString16 (nat n div 16) = [hexDigit (nat n div 16)]"
      using d by (subst toString16.simps) simp
    finally show ?thesis by (simp add: toHex_def js_round_of_int c Let_def)
  qed
qed

lemma parseInt16_pair: "parseInt16 [a, b] = 16 * digitValue a + digitValue b"
  by (simp add: parseInt16_def)

lemma upperChar_hash: "upperChar (CHR ''#'') = CHR ''#''"
  by (simp add: upperChar_def)

lemma rgbToHex_bytes:
  assumes "0 \<le> r" "r \<le> 255" "0 \<le> g" "g \<le> 255" "0 \<le> b" "b \<le> 255"
  shows "rgbToHex (of_int r) (of_int g) (of_int b) =
    [CHR ''#'',
     upperChar (hexDigit (nat r div 16)), upperChar (hexDigit (nat r mod 16)),
     upperChar (hexDigit (nat g div 16)), upperChar (hexDigit (nat g mod 16)),
     upperChar (hexDigit (nat b div 16)), upperChar (hexDigit (nat b mod 16))]"
  using assms by (simp add: rgbToHex_def toUpperCase_def toHex_byte upperChar_hash)

lemma byte_digits:
  assumes "0 \<le> n" "n \<le> 255"
  shows "nat n div 16 < 16" "nat n mod 16 < 16" "16 * int (nat n div 16) + int (nat n mod 16) = n"
proof -
  show "nat n div 16 < 16" "nat n mod 16 < 16" using assms by auto
  show "16 * int (nat n div 16) + int (nat n mod 16) = n"
    using assms by (simp add: zdiv_int zmod_int)
qed

lemma hexToRgb_rgbToHex:
  assumes "0 \<le> r" "r \<le> 255" "0 \<le> g" "g \<le> 255" "0 \<le> b" "b \<le> 255"
  shows "hexToRgb (rgbToHex (of_int r) (of_int g) (of_int b)) =
    Some \<lparr>rgb_r = r, rgb_g = g, rgb_b = b\<rparr>"
proof -
  note dr = byte_digits[OF assms(1,2)] and dg = byte_digits[OF assms(3,4)]
    and db = byte_digits[OF assms(5,6)]
  show ?thesis
    unfolding rgbToHex_bytes[OF assms]
    by (simp add: hexToRgb_def dropHash_def parseInt16_pair
        hexDigit_facts[OF dr(1)] hexDigit_facts[OF dr(2)]
        hexDigit_facts[OF dg(1)] hexDigit_facts[OF dg(2)]
        hexDigit_facts[OF db(1)] hexDigit_facts[OF db(2)] dr(3) dg(3) db(3))
qed

lemma isHexChar_not_hash: "isHexChar c \<Longrightarrow> c \<noteq> CHR ''#''"
  by (auto simp: isHexChar_def)

lemma toHex_pair:
  assumes "isHexChar a" "isHexChar b"
  shows "map upperChar (toHex (of_int (parseInt16 [a, b]))) = [upperChar a, upperChar b]"
proof -
  note fa = hex_char_facts[OF assms(1)] and fb = hex_char_facts[OF assms(2)]
  define n where "n = 16 * digitValue a + digitValue b"
  have n: "0 \<le> n" "n \<le> 255" using fa(1,2) fb(1,2) by (simp_all add: n_def)
  have "nat n = 16 * nat (digitValue a) + nat (digitValue b)"
    using fa(1) fb(1) by (simp add: n_def nat_add_distrib nat_mult_distrib)
  moreover have "nat (digitValue b) < 16" using fb(1,2) by simp
  ultimately have "nat n div 16 = nat (digitValue a)" "nat n mod 16 = nat (digitValue b)"
    by simp_all
  then show ?thesis
    using toHex_byte[OF n] fa(3) fb(3) by (simp add: parseInt16_pair n_def)
qed

lemma rgbToHex_hexToRgb_digits:
  assumes "length ds = 6" "list_all isHexChar ds"
  shows "\<exists>c. hexToRgb ds = Some c \<and> hexToRgb (CHR ''#'' # ds) = Some c \<and>
    rgbToHex (of_int (rgb_r c)) (of_int (rgb_g c)) (of_int (rgb_b c)) =
      CHR ''#'' # toUpperCase ds"
proof -
  from assms(1) obtain r1 r2 g1 g2 b1 b2 where ds: "ds = [r1, r2, g1, g2, b1, b2]"
    by (auto simp: length_Suc_conv numeral_eq_Suc)
  with assms(2) have h: "isHexChar r1" "isHexChar r2" "isHexChar g1" "isHexChar g2"
    "isHexChar b1" "isHexChar b2" by simp_all
  have nh: "r1 \<noteq> CHR ''#''" using h(1) by (rule isHexChar_not_hash)
  let ?c = "\<lparr>rgb_r = parseInt16 [r1, r2], rgb_g = parseInt16 [g1, g2],
    rgb_b = parseInt16 [b1, b2]\<rparr>"
  have 1: "hexToRgb ds = Some ?c" using h nh by (simp add: hexToRgb_def dropHash_def ds)
  have 2: "hexToRgb (CHR ''#'' # ds) = Some ?c" using h by (simp add: hexToRgb_def dropHash_def ds)
  have 3: "rgbToHex (of_int (rgb_r ?c)) (of_int (rgb_g ?c)) (of_int (rgb_b ?c)) =
      CHR ''#'' # toUpperCase ds"
    using toHex_pair[OF h(1,2)] toHex_pair[OF h(3,4)] toHex_pair[OF h(5,6)]
    by (simp add: rgbToHex_def toUpperCase_def upperChar_hash ds)
  from 1 2 3 show ?thesis by blast
qed

lemma hexToRgb_None_iff: "hexToRgb s = None \<longleftrightarrow> \<not> isValidHex s"
proof (cases "length (dropHash s) = 6")
  case True
  then obtain r1 r2 g1 g2 b1 b2 where ds: "dropHash s = [r1, r2, g1, g2, b1, b2]"
    by (auto simp: length_Suc_conv numeral_eq_Suc)
  then show ?thesis by (simp add: hexToRgb_def isValidHex_def)
next
  case False
  then have "hexToRgb s = None"
    by (auto simp: hexToRgb_def split: list.splits)
  with False show ?thesis by (simp add: isValidHex_def)
qed

lemma isValidHex_iff: "isValidHex s \<longleftrightarrow> s \<in> hexLanguage"
proof -
  have a: "list_all isHexChar ds \<longleftrightarrow> set ds \<subseteq> set ''0123456789abcdefABCDEF''" for ds
    unfolding list_all_iff using isHexChar_iff by blast
  show ?thesis
  proof (cases s)
    case Nil
    then show ?thesis by (simp add: isValidHex_def hexLanguage_def dropHash_def)
  next
    case (Cons c t)
    show ?thesis
    proof (cases "c = CHR ''#''")
      case True
      have "length t = 6 \<Longrightarrow> length (c # t) \<noteq> 6" by simp
      with True Cons show ?thesis
        unfolding isValidHex_def hexLanguage_def dropHash_def Let_def a by auto
    next
      case False
      with Cons show ?thesis
        unfolding isValidHex_def hexLanguage_def dropHash_def Let_def a by auto
    qed
  qed
qed

text \<open>
  C8. \<open>hexToRgb\<close> returns \<open>null\<close> exactly on the strings outside the grammar, and
  on a string of the grammar it returns the three channels that its digit pairs denote in
  base 16; \<open>isValidHex\<close> accepts exactly the grammar; so \<open>hexToRgb\<close> succeeds on a
  string if and only if \<open>isValidHex\<close> accepts it. No path of either function throws.
\<close>

theorem hexToRgb_fails_outside_grammar:
  "(hexToRgb s = None \<longleftrightarrow> s \<notin> hexLanguage) \<and>
   (length ds = 6 \<and> set ds \<subseteq> set ''0123456789abcdefABCDEF'' \<and>
    (s = ds \<or> s = CHR ''#'' # ds) \<longrightarrow>
      hexToRgb s =
        Some \<lparr>rgb_r = 16 * digitValue (ds ! 0) + digitValue (ds ! 1),
              rgb_g = 16 * digitValue (ds ! 2) + digitValue (ds ! 3),
              rgb_b = 16 * digitValue (ds ! 4) + digitValue (ds ! 5)\<rparr>) \<and>
   map digitValue ''0123456789abcdefABCDEF'' =
     [0, 1, 2, 3, 4, 5, 6, 7, 8, 9, 10, 11, 12, 13, 14, 15, 10, 11, 12, 13, 14, 15] \<and>
   (isValidHex s \<longleftrightarrow> s \<in> hexLanguage) \<and>
   (hexToRgb s \<noteq> None \<longleftrightarrow> isValidHex s)"
proof -
  have 1: "hexToRgb s = None \<longleftrightarrow> s \<notin> hexLanguage"
    by (simp add: hexToRgb_None_iff isValidHex_iff)
  have 2: "length ds = 6 \<and> set ds \<subseteq> set ''0123456789abcdefABCDEF'' \<and>
      (s = ds \<or> s = CHR ''#'' # ds) \<longrightarrow>
    hexToRgb s =
        Some \<lparr>rgb_r = 16 * digitValue (ds ! 0) + digitValue (ds ! 1),
              rgb_g = 16 * digitValue (ds ! 2) + digitValue (ds ! 3),
              rgb_b = 16 * digitValue (ds ! 4) + digitValue (ds ! 5)\<rparr>"
  proof (intro impI, elim conjE)
    assume a: "length ds = 6" "set ds \<subseteq> set ''0123456789abcdefABCDEF''"
      "s = ds \<or> s = CHR ''#'' # ds"
    from a(1) obtain r1 r2 g1 g2 b1 b2 where ds: "ds = [r1, r2, g1, g2, b1, b2]"
      by (auto simp: length_Suc_conv numeral_eq_Suc)
    have h: "isHexChar r1" "isHexChar r2" "isHexChar g1" "isHexChar g2"
      "isHexChar b1" "isHexChar b2"
      using a(2) unfolding ds isHexChar_iff by simp_all
    have nh: "r1 \<noteq> CHR ''#''" using h(1) by (rule isHexChar_not_hash)
    from a(3) show "hexToRgb s =
        Some \<lparr>rgb_r = 16 * digitValue (ds ! 0) + digitValue (ds ! 1),
              rgb_g = 16 * digitValue (ds ! 2) + digitValue (ds ! 3),
              rgb_b = 16 * digitValue (ds ! 4) + digitValue (ds ! 5)\<rparr>"
      using h nh by (auto simp: hexToRgb_def dropHash_def ds parseInt16_pair)
  qed
  have 3: "map digitValue ''0123456789abcdefABCDEF'' =
     [0, 1, 2, 3, 4, 5, 6, 7, 8, 9, 10, 11, 12, 13, 14, 15, 10, 11, 12, 13, 14, 15]"
    by (simp add: digitValue_def)
  have 4: "isValidHex s \<longleftrightarrow> s \<in> hexLanguage" by (rule isValidHex_iff)
  have 5: "hexToRgb s \<noteq> None \<longleftrightarrow> isValidHex s" by (simp add: hexToRgb_None_iff)
  from 1 2 3 4 5 show ?thesis by blast
qed

theorem hexToRgb_fails_outside_grammar_witness:
  "hexToRgb ''#12G456'' = None \<and> ''#12G456'' \<notin> hexLanguage \<and> \<not> isValidHex ''#12G456'' \<and>
   hexToRgb ''#ff6600'' = Some \<lparr>rgb_r = 255, rgb_g = 102, rgb_b = 0\<rparr> \<and>
   ''#ff6600'' \<in> hexLanguage \<and> isValidHex ''#ff6600''"
proof -
  have a: "hexToRgb ''#12G456'' = None"
    by (simp add: hexToRgb_def dropHash_def isHexChar_def)
  have b: "hexToRgb ''#ff6600'' = Some \<lparr>rgb_r = 255, rgb_g = 102, rgb_b = 0\<rparr>"
    by (simp add: hexToRgb_def dropHash_def isHexChar_def parseInt16_def digitValue_def)
  from a b show ?thesis
    using hexToRgb_fails_outside_grammar[of "''#12G456''" "[]"]
      hexToRgb_fails_outside_grammar[of "''#ff6600''" "[]"]
    by simp
qed

text \<open>
  C5. The hexadecimal round trip is exact in both directions. For integer channels in
  0..255, \<open>hexToRgb\<close> of \<open>rgbToHex\<close> gives the channels back. For six hexadecimal
  digits \<open>ds\<close> of any letter case, with or without a leading \<open>#\<close>, \<open>rgbToHex\<close> of
  the channels that \<open>hexToRgb\<close> returns is \<open>#\<close> followed by \<open>ds\<close> in upper case.
\<close>

theorem hex_round_trip:
  "(0 \<le> r \<and> r \<le> 255 \<and> 0 \<le> g \<and> g \<le> 255 \<and> 0 \<le> b \<and> b \<le> 255 \<longrightarrow>
      hexToRgb (rgbToHex (of_int r) (of_int g) (of_int b)) =
        Some \<lparr>rgb_r = r, rgb_g = g, rgb_b = b\<rparr>) \<and>
   (length ds = 6 \<and> set ds \<subseteq> set ''0123456789abcdefABCDEF'' \<and>
    (h = ds \<or> h = CHR ''#'' # ds) \<longrightarrow>
      (\<exists>c. hexToRgb h = Some c \<and>
         rgbToHex (of_int (rgb_r c)) (of_int (rgb_g c)) (of_int (rgb_b c)) =
           CHR ''#'' # toUpperCase ds))"
proof -
  have "\<exists>c. hexToRgb h = Some c \<and>
         rgbToHex (of_int (rgb_r c)) (of_int (rgb_g c)) (of_int (rgb_b c)) =
           CHR ''#'' # toUpperCase ds"
    if a: "length ds = 6" "set ds \<subseteq> set ''0123456789abcdefABCDEF''"
      "h = ds \<or> h = CHR ''#'' # ds"
  proof -
    have "list_all isHexChar ds"
      unfolding list_all_iff using a(2) isHexChar_iff by blast
    from rgbToHex_hexToRgb_digits[OF a(1) this] a(3) show ?thesis by blast
  qed
  then show ?thesis using hexToRgb_rgbToHex[of r g b] by blast
qed

theorem hex_round_trip_witness:
  "hexToRgb (rgbToHex 255 102 0) = Some \<lparr>rgb_r = 255, rgb_g = 102, rgb_b = 0\<rparr> \<and>
   length ''ff6a0B'' = 6 \<and> set ''ff6a0B'' \<subseteq> set ''0123456789abcdefABCDEF'' \<and>
   (\<exists>c. hexToRgb ''#ff6a0B'' = Some c \<and>
      rgbToHex (of_int (rgb_r c)) (of_int (rgb_g c)) (of_int (rgb_b c)) =
        CHR ''#'' # toUpperCase ''ff6a0B'') \<and>
   toUpperCase ''ff6a0B'' = ''FF6A0B''"
proof -
  have "toUpperCase ''ff6a0B'' = ''FF6A0B''"
    by (simp add: toUpperCase_def upperChar_def char_of_eq_iff)
  then show ?thesis
    using hex_round_trip[of 255 102 0 "''ff6a0B''" "''#ff6a0B''"] by simp
qed

section \<open>Brightness\<close>

lemma correctColor_clamped:
  assumes "correctColor c key = Inr out"
  shows "0 \<le> rgb_r out \<and> rgb_r out \<le> 255 \<and> 0 \<le> rgb_g out \<and> rgb_g out \<le> 255 \<and>
    0 \<le> rgb_b out \<and> rgb_b out \<le> 255"
  using assms
  by (auto simp: correctColor_def Let_def clamp255_def split: option.splits)

lemma scale_full:
  assumes "0 \<le> n" "n \<le> 255"
  shows "js_round (fmul (of_int n) (fdiv 100 100)) = n"
proof -
  have "fdiv 100 100 = fl (of_int 1)" by (simp add: fdiv_def)
  also have "\<dots> = of_int 1" by (rule fl_of_int) simp
  finally have a: "fdiv 100 100 = 1" by simp
  have b: "fl (of_int n) = of_int n" using assms by (intro fl_of_int) simp
  have "fmul (of_int n) (fdiv 100 100) = fl (of_int n)" by (simp add: a fmul_def)
  then show ?thesis by (simp only: b js_round_of_int)
qed

lemma scale_half:
  assumes "0 \<le> n" "n \<le> 255"
  shows "js_round (fmul (of_int n) (fdiv 50 100)) = js_round (of_int n / 2)"
proof -
  have "fdiv 50 100 = fl (of_int 1 / 2)" by (simp add: fdiv_def)
  also have "\<dots> = of_int 1 / 2" by (rule fl_half) simp
  finally have a: "fdiv 50 100 = 1 / 2" by simp
  have b: "fl (of_int n / 2) = of_int n / 2" using assms by (intro fl_half) simp
  have "fmul (of_int n) (fdiv 50 100) = fl (of_int n / 2)" by (simp add: a fmul_def)
  then show ?thesis by (simp only: b)
qed

text \<open>
  C9. \<open>updateUI\<close> scales the corrected color after the correction: each channel is
  multiplied by \<open>currentBrightness / 100\<close> and rounded. At brightness 100 the result is
  the corrected color itself, and at brightness 50 each channel is the rounded half of
  that channel, the half of an odd channel going up.
\<close>

theorem brightness_after_correction:
  assumes "correctColor (currentColor st) (currentDevice st) = Inr c"
  shows "adjustedCorrected st =
      Inr \<lparr>rgb_r = js_round (fmul (of_int (rgb_r c)) (fdiv (of_int (currentBrightness st)) 100)),
           rgb_g = js_round (fmul (of_int (rgb_g c)) (fdiv (of_int (currentBrightness st)) 100)),
           rgb_b = js_round (fmul (of_int (rgb_b c)) (fdiv (of_int (currentBrightness st)) 100))\<rparr> \<and>
    adjustedCorrected (st\<lparr>currentBrightness := 100\<rparr>) = Inr c \<and>
    adjustedCorrected (st\<lparr>currentBrightness := 50\<rparr>) =
      Inr \<lparr>rgb_r = js_round (of_int (rgb_r c) / 2), rgb_g = js_round (of_int (rgb_g c) / 2),
           rgb_b = js_round (of_int (rgb_b c) / 2)\<rparr> \<and>
    js_round (of_int (rgb_r c) / 2) = (rgb_r c + 1) div 2 \<and>
    js_round (of_int (rgb_g c) / 2) = (rgb_g c + 1) div 2 \<and>
    js_round (of_int (rgb_b c) / 2) = (rgb_b c + 1) div 2"
proof -
  note r = correctColor_clamped[OF assms]
  have 1: "adjustedCorrected st =
      Inr \<lparr>rgb_r = js_round (fmul (of_int (rgb_r c)) (fdiv (of_int (currentBrightness st)) 100)),
           rgb_g = js_round (fmul (of_int (rgb_g c)) (fdiv (of_int (currentBrightness st)) 100)),
           rgb_b = js_round (fmul (of_int (rgb_b c)) (fdiv (of_int (currentBrightness st)) 100))\<rparr>"
    using assms by (simp add: adjustedCorrected_def Let_def)
  have 2: "adjustedCorrected (st\<lparr>currentBrightness := 100\<rparr>) = Inr c"
    using assms r scale_full[of "rgb_r c"] scale_full[of "rgb_g c"] scale_full[of "rgb_b c"]
    by (simp add: adjustedCorrected_def)
  have 3: "adjustedCorrected (st\<lparr>currentBrightness := 50\<rparr>) =
      Inr \<lparr>rgb_r = js_round (of_int (rgb_r c) / 2), rgb_g = js_round (of_int (rgb_g c) / 2),
           rgb_b = js_round (of_int (rgb_b c) / 2)\<rparr>"
    using assms r scale_half[of "rgb_r c"] scale_half[of "rgb_g c"] scale_half[of "rgb_b c"]
    by (simp add: adjustedCorrected_def)
  from 1 2 3 show ?thesis by (simp only: js_round_half)
qed

theorem brightness_after_correction_witness:
  "correctColor \<lparr>rgb_r = 255, rgb_g = 102, rgb_b = 0\<rparr> ''tl-fans'' =
     Inr \<lparr>rgb_r = 255, rgb_g = 34, rgb_b = 0\<rparr> \<and>
   adjustedCorrected \<lparr>currentDevice = ''tl-fans'', currentBrand = ''lianli'',
       currentBrightness = 100, currentColor = \<lparr>rgb_r = 255, rgb_g = 102, rgb_b = 0\<rparr>\<rparr> =
     Inr \<lparr>rgb_r = 255, rgb_g = 34, rgb_b = 0\<rparr> \<and>
   adjustedCorrected \<lparr>currentDevice = ''tl-fans'', currentBrand = ''lianli'',
       currentBrightness = 50, currentColor = \<lparr>rgb_r = 255, rgb_g = 102, rgb_b = 0\<rparr>\<rparr> =
     Inr \<lparr>rgb_r = 128, rgb_g = 17, rgb_b = 0\<rparr>"
proof -
  define st where "st = \<lparr>currentDevice = ''tl-fans'', currentBrand = ''lianli'',
         currentBrightness = 40, currentColor = \<lparr>rgb_r = 255, rgb_g = 102, rgb_b = 0\<rparr>\<rparr>"
  have c: "correctColor (currentColor st) (currentDevice st) =
      Inr \<lparr>rgb_r = 255, rgb_g = 34, rgb_b = 0\<rparr>"
    by (simp add: st_def cc_orange)
  from brightness_after_correction[OF c] show ?thesis
    by (simp add: st_def cc_orange)
qed


section \<open>The branch without a special correction\<close>

lemma fsub_of_int:
  assumes "\<bar>a - b\<bar> < 2 ^ 53"
  shows "fsub (of_int a) (of_int b) = of_int (a - b)"
  using fl_of_int[OF assms] by (simp add: fsub_def)

lemma abs_fdiv: "\<bar>fdiv x 70\<bar> = fdiv \<bar>x\<bar> 70"
  by (simp add: fdiv_def fl_abs)

lemma coolFactor_abs:
  assumes "200 \<le> h" "h \<le> 340"
  shows "\<bar>fdiv (fsub (of_int h) 270) 70\<bar> = fdiv (of_int \<bar>h - 270\<bar>) 70"
proof -
  have "fsub (of_int h) (of_int 270) = of_int (h - 270)"
    using assms by (intro fsub_of_int) (simp add: abs_if)
  then show ?thesis by (simp add: abs_fdiv)
qed

lemma rgbToHsl_grey: "hsl_h (rgbToHsl n n n) = 0 \<and> hsl_s (rgbToHsl n n n) = 0"
  by (simp add: rgbToHsl_def Let_def fmul_def fl_zero js_round_def floor_rat_numeral)


text \<open>
  C3. When no rule is active, \<open>correctColor\<close> continues with the general branch. For a
  hue in \<open>[0, 90]\<close> the green channel becomes
  \<open>round (g * (1 - warmFactor * (1 - greenReduction)))\<close> with
  \<open>warmFactor = 1 - h / 90\<close>, and the corrected hue becomes
  \<open>max 0 (h + hueShift * warmFactor)\<close>. For a hue in \<open>[200, 340]\<close> the blue channel
  becomes \<open>round (b * (1 - coolFactor * (1 - blueReduction) * 0.3))\<close> with
  \<open>coolFactor = 1 - \<bar>h - 270\<bar> / 70\<close>. The two tests are made one after the other; as
  the ranges are disjoint at most one of them changes anything, and for a hue outside both
  the branch changes no channel and leaves the hue. The red channel is never changed.
  Every operation is the binary64 one.
\<close>

theorem general_correction:
  assumes "DEVICE_PROFILES key = Some p"
    and "hs = rgbToHsl (rgb_r c) (rgb_g c) (rgb_b c)"
    and "specialCorrection (hsl_h hs) (hueCorrections p) = None"
    and "v = applyGeneral c hs p"
  shows
    "(let out = blend hs v (boostSaturation hs p)
      in correctColor c key =
           Inr \<lparr>rgb_r = clamp255 (rgb_r out), rgb_g = clamp255 (rgb_g out),
                rgb_b = clamp255 (rgb_b out)\<rparr>) \<and>
     correctedR v = rgb_r c \<and>
     (0 \<le> hsl_h hs \<and> hsl_h hs \<le> 90 \<longrightarrow>
        (let warmFactor = fsub 1 (fdiv (of_int (hsl_h hs)) 90)
         in correctedG v =
              js_round (fmul (of_int (rgb_g c))
                (fsub 1 (fmul warmFactor (fsub 1 (greenReduction p))))) \<and>
            correctedHue v =
              max 0 (fadd (of_int (hsl_h hs)) (fmul (of_int (profile.hueShift p)) warmFactor)) \<and>
            correctedB v = rgb_b c)) \<and>
     (200 \<le> hsl_h hs \<and> hsl_h hs \<le> 340 \<longrightarrow>
        (let coolFactor = fsub 1 (fdiv (of_int \<bar>hsl_h hs - 270\<bar>) 70)
         in correctedB v =
              js_round (fmul (of_int (rgb_b c))
                (fsub 1 (fmul (fmul coolFactor (fsub 1 (blueReduction p))) (fl 0.3)))) \<and>
            correctedG v = rgb_g c \<and>
            correctedHue v = of_int (hsl_h hs))) \<and>
     (\<not> (0 \<le> hsl_h hs \<and> hsl_h hs \<le> 90) \<and> \<not> (200 \<le> hsl_h hs \<and> hsl_h hs \<le> 340) \<longrightarrow>
        correctedG v = rgb_g c \<and> correctedB v = rgb_b c \<and>
        correctedHue v = of_int (hsl_h hs))"
proof -
  have 1: "(let out = blend hs v (boostSaturation hs p)
      in correctColor c key =
           Inr \<lparr>rgb_r = clamp255 (rgb_r out), rgb_g = clamp255 (rgb_g out),
                rgb_b = clamp255 (rgb_b out)\<rparr>)"
    using assms(3) unfolding correctColor_branches[OF assms(1)] assms(2)[symmetric] assms(4)
    by (simp add: Let_def)
  have 2: "correctedR v = rgb_r c"
    by (simp add: assms(4) applyGeneral_def Let_def)
  have 3: "(let warmFactor = fsub 1 (fdiv (of_int (hsl_h hs)) 90)
         in correctedG v =
              js_round (fmul (of_int (rgb_g c))
                (fsub 1 (fmul warmFactor (fsub 1 (greenReduction p))))) \<and>
            correctedHue v =
              max 0 (fadd (of_int (hsl_h hs)) (fmul (of_int (profile.hueShift p)) warmFactor)) \<and>
            correctedB v = rgb_b c)"
    if "0 \<le> hsl_h hs \<and> hsl_h hs \<le> 90"
    using that by (simp add: assms(4) applyGeneral_def Let_def)
  have 4: "(let coolFactor = fsub 1 (fdiv (of_int \<bar>hsl_h hs - 270\<bar>) 70)
         in correctedB v =
              js_round (fmul (of_int (rgb_b c))
                (fsub 1 (fmul (fmul coolFactor (fsub 1 (blueReduction p))) (fl 0.3)))) \<and>
            correctedG v = rgb_g c \<and>
            correctedHue v = of_int (hsl_h hs))"
    if h: "200 \<le> hsl_h hs \<and> hsl_h hs \<le> 340"
  proof -
    have "\<not> hsl_h hs \<le> 90" using h by simp
    then show ?thesis
      using h coolFactor_abs[of "hsl_h hs"]
      by (simp add: assms(4) applyGeneral_def Let_def)
  qed
  have 5: "correctedG v = rgb_g c \<and> correctedB v = rgb_b c \<and>
        correctedHue v = of_int (hsl_h hs)"
    if "\<not> (0 \<le> hsl_h hs \<and> hsl_h hs \<le> 90) \<and> \<not> (200 \<le> hsl_h hs \<and> hsl_h hs \<le> 340)"
    using that by (auto simp add: assms(4) applyGeneral_def Let_def)
  from 1 2 3 4 5 show ?thesis by blast
qed

theorem general_correction_witness:
  "DEVICE_PROFILES ''tl-fans'' = Some tl_fans \<and>
   rgbToHsl 128 128 128 = \<lparr>hsl_h = 0, hsl_s = 0, hsl_l = 50\<rparr> \<and>
   specialCorrection 0 (hueCorrections tl_fans) = None \<and>
   correctedG (applyGeneral \<lparr>rgb_r = 128, rgb_g = 128, rgb_b = 128\<rparr>
       \<lparr>hsl_h = 0, hsl_s = 0, hsl_l = 50\<rparr> tl_fans) =
     js_round (fmul 128 (fsub 1 (fmul (fsub 1 (fdiv 0 90)) (fsub 1 (greenReduction tl_fans))))) \<and>
   applyGeneral \<lparr>rgb_r = 128, rgb_g = 128, rgb_b = 128\<rparr>
       \<lparr>hsl_h = 0, hsl_s = 0, hsl_l = 50\<rparr> tl_fans =
     \<lparr>correctedR = 128, correctedG = 109, correctedB = 128, correctedHue = 0\<rparr> \<and>
   rgbToHsl 0 0 255 = \<lparr>hsl_h = 240, hsl_s = 100, hsl_l = 50\<rparr> \<and>
   specialCorrection 240 (hueCorrections tl_fans) = None \<and>
   correctedB (applyGeneral \<lparr>rgb_r = 0, rgb_g = 0, rgb_b = 255\<rparr>
       \<lparr>hsl_h = 240, hsl_s = 100, hsl_l = 50\<rparr> tl_fans) =
     js_round (fmul 255 (fsub 1 (fmul (fmul (fsub 1 (fdiv 30 70))
       (fsub 1 (blueReduction tl_fans))) (fl 0.3)))) \<and>
   applyGeneral \<lparr>rgb_r = 0, rgb_g = 0, rgb_b = 255\<rparr>
       \<lparr>hsl_h = 240, hsl_s = 100, hsl_l = 50\<rparr> tl_fans =
     \<lparr>correctedR = 0, correctedG = 0, correctedB = 242, correctedHue = 240\<rparr> \<and>
   rgbToHsl 0 255 0 = \<lparr>hsl_h = 120, hsl_s = 100, hsl_l = 50\<rparr> \<and>
   specialCorrection 120 (hueCorrections tl_fans) = None \<and>
   applyGeneral \<lparr>rgb_r = 0, rgb_g = 255, rgb_b = 0\<rparr>
       \<lparr>hsl_h = 120, hsl_s = 100, hsl_l = 50\<rparr> tl_fans =
     \<lparr>correctedR = 0, correctedG = 255, correctedB = 0, correctedHue = 120\<rparr>"
proof -
  have g: "rgbToHsl (rgb_r \<lparr>rgb_r = 128, rgb_g = 128, rgb_b = 128\<rparr>)
      (rgb_g \<lparr>rgb_r = 128, rgb_g = 128, rgb_b = 128\<rparr>)
      (rgb_b \<lparr>rgb_r = 128, rgb_g = 128, rgb_b = 128\<rparr>) = \<lparr>hsl_h = 0, hsl_s = 0, hsl_l = 50\<rparr>"
    by (simp add: cc_grey_hsl)
  have b: "rgbToHsl (rgb_r \<lparr>rgb_r = 0, rgb_g = 0, rgb_b = 255\<rparr>)
      (rgb_g \<lparr>rgb_r = 0, rgb_g = 0, rgb_b = 255\<rparr>)
      (rgb_b \<lparr>rgb_r = 0, rgb_g = 0, rgb_b = 255\<rparr>) = \<lparr>hsl_h = 240, hsl_s = 100, hsl_l = 50\<rparr>"
    by (simp add: cc_blue_hsl)
  have n: "rgbToHsl (rgb_r \<lparr>rgb_r = 0, rgb_g = 255, rgb_b = 0\<rparr>)
      (rgb_g \<lparr>rgb_r = 0, rgb_g = 255, rgb_b = 0\<rparr>)
      (rgb_b \<lparr>rgb_r = 0, rgb_g = 255, rgb_b = 0\<rparr>) = \<lparr>hsl_h = 120, hsl_s = 100, hsl_l = 50\<rparr>"
    by (simp add: cc_green_hsl)
  have g': "specialCorrection (hsl_h \<lparr>hsl_h = 0, hsl_s = 0, hsl_l = 50\<rparr>) (hueCorrections tl_fans) = None"
    by (simp add: cc_grey_rule)
  have b': "specialCorrection (hsl_h \<lparr>hsl_h = 240, hsl_s = 100, hsl_l = 50\<rparr>) (hueCorrections tl_fans) = None"
    by (simp add: cc_blue_rule)
  have n': "specialCorrection (hsl_h \<lparr>hsl_h = 120, hsl_s = 100, hsl_l = 50\<rparr>) (hueCorrections tl_fans) = None"
    by (simp add: cc_green_rule)
  note w = general_correction[OF DEVICE_PROFILES_tl_fans g[symmetric] g' refl]
  note c = general_correction[OF DEVICE_PROFILES_tl_fans b[symmetric] b' refl]
  note o = general_correction[OF DEVICE_PROFILES_tl_fans n[symmetric] n' refl]
  have 1: "correctedG (applyGeneral \<lparr>rgb_r = 128, rgb_g = 128, rgb_b = 128\<rparr>
       \<lparr>hsl_h = 0, hsl_s = 0, hsl_l = 50\<rparr> tl_fans) =
     js_round (fmul 128 (fsub 1 (fmul (fsub 1 (fdiv 0 90)) (fsub 1 (greenReduction tl_fans)))))"
    using w by (simp add: Let_def)
  have 2: "correctedB (applyGeneral \<lparr>rgb_r = 0, rgb_g = 0, rgb_b = 255\<rparr>
       \<lparr>hsl_h = 240, hsl_s = 100, hsl_l = 50\<rparr> tl_fans) =
     js_round (fmul 255 (fsub 1 (fmul (fmul (fsub 1 (fdiv 30 70))
       (fsub 1 (blueReduction tl_fans))) (fl 0.3))))"
    using c by (simp add: Let_def)
  have 3: "correctedG (applyGeneral \<lparr>rgb_r = 0, rgb_g = 255, rgb_b = 0\<rparr>
       \<lparr>hsl_h = 120, hsl_s = 100, hsl_l = 50\<rparr> tl_fans) = 255"
    using o by simp
  from 1 2 3 show ?thesis
    by (simp add: DEVICE_PROFILES_tl_fans cc_grey_hsl cc_grey_rule cc_grey_direct
        cc_blue_hsl cc_blue_rule cc_blue_direct cc_green_hsl cc_green_rule cc_green_direct)
qed

section \<open>Saturation boost and blend\<close>

text \<open>
  C4. In both branches the corrected saturation is
  \<open>min 100 (hsl.s * saturationBoost)\<close>. Exactly when the corrected hue differs from the hue
  by more than 2 or the corrected saturation differs from the saturation by more than 5, a
  color is recomputed by \<open>hslToRgb\<close> from the corrected hue, the corrected saturation and
  the lightness, and each channel is the rounded mean of the directly corrected channel and
  the recomputed one; otherwise the directly corrected channels are kept. On channels
  in 0..255 the final clamp changes nothing, so these are the channels returned, and the
  rounded mean computed in binary64 is the exact one, \<open>(x + y + 1) div 2\<close>.
\<close>

theorem blend_condition:
  assumes reg: "DEVICE_PROFILES key = Some p"
    and c: "0 \<le> rgb_r c" "rgb_r c \<le> 255" "0 \<le> rgb_g c" "rgb_g c \<le> 255"
      "0 \<le> rgb_b c" "rgb_b c \<le> 255"
    and hs: "hs = rgbToHsl (rgb_r c) (rgb_g c) (rgb_b c)"
    and v: "v = (case specialCorrection (hsl_h hs) (hueCorrections p) of
                Some sc \<Rightarrow> applySpecial c hs sc
              | None \<Rightarrow> applyGeneral c hs p)"
    and cs: "correctedSat = min 100 (fmul (of_int (hsl_s hs)) (saturationBoost p))"
    and new: "newRgb = hslToRgb (correctedHue v) correctedSat (of_int (hsl_l hs))"
  shows
    "correctColor c key =
       Inr (if 2 < \<bar>fsub (correctedHue v) (of_int (hsl_h hs))\<bar> \<or>
               5 < \<bar>fsub correctedSat (of_int (hsl_s hs))\<bar>
            then \<lparr>rgb_r = js_round (fdiv (fadd (of_int (correctedR v)) (of_int (rgb_r newRgb))) 2),
                  rgb_g = js_round (fdiv (fadd (of_int (correctedG v)) (of_int (rgb_g newRgb))) 2),
                  rgb_b = js_round (fdiv (fadd (of_int (correctedB v)) (of_int (rgb_b newRgb))) 2)\<rparr>
            else \<lparr>rgb_r = correctedR v, rgb_g = correctedG v, rgb_b = correctedB v\<rparr>) \<and>
     js_round (fdiv (fadd (of_int (correctedR v)) (of_int (rgb_r newRgb))) 2) =
       (correctedR v + rgb_r newRgb + 1) div 2 \<and>
     js_round (fdiv (fadd (of_int (correctedG v)) (of_int (rgb_g newRgb))) 2) =
       (correctedG v + rgb_g newRgb + 1) div 2 \<and>
     js_round (fdiv (fadd (of_int (correctedB v)) (of_int (rgb_b newRgb))) 2) =
       (correctedB v + rgb_b newRgb + 1) div 2"
proof -
  note pb = profile_bounds[OF reg]
  note hr = rgbToHsl_range[OF c, folded hs]
  note vr = corrected_range[OF reg c hs v]
  have "0 \<le> of_int (hsl_s hs) * saturationBoost p"
    using hr pb by (intro mult_nonneg_nonneg) simp_all
  then have "0 \<le> fmul (of_int (hsl_s hs)) (saturationBoost p)"
    unfolding fmul_def by (rule fl_nonneg)
  then have sr: "0 \<le> correctedSat" "correctedSat \<le> 100" by (simp_all add: cs)
  have lr: "(0::rat) \<le> of_int (hsl_l hs)" "(of_int (hsl_l hs) :: rat) \<le> 100"
    using hr by simp_all
  have nr: "0 \<le> rgb_r newRgb \<and> rgb_r newRgb \<le> 255 \<and> 0 \<le> rgb_g newRgb \<and>
      rgb_g newRgb \<le> 255 \<and> 0 \<le> rgb_b newRgb \<and> rgb_b newRgb \<le> 255"
    unfolding new using vr sr lr by (intro hslToRgb_range) simp_all
  from vr have vR: "0 \<le> correctedR v" "correctedR v \<le> 255"
    and vG: "0 \<le> correctedG v" "correctedG v \<le> 255"
    and vB: "0 \<le> correctedB v" "correctedB v \<le> 255" by simp_all
  from nr have nR: "0 \<le> rgb_r newRgb" "rgb_r newRgb \<le> 255"
    and nG: "0 \<le> rgb_g newRgb" "rgb_g newRgb \<le> 255"
    and nB: "0 \<le> rgb_b newRgb" "rgb_b newRgb \<le> 255" by simp_all
  note ar = average_range[OF vR nR] and ag = average_range[OF vG nG]
    and ab = average_range[OF vB nB]
  have bl: "blend hs v correctedSat =
      (if 2 < \<bar>fsub (correctedHue v) (of_int (hsl_h hs))\<bar> \<or>
          5 < \<bar>fsub correctedSat (of_int (hsl_s hs))\<bar>
       then \<lparr>rgb_r = average (correctedR v) (rgb_r newRgb),
             rgb_g = average (correctedG v) (rgb_g newRgb),
             rgb_b = average (correctedB v) (rgb_b newRgb)\<rparr>
       else \<lparr>rgb_r = correctedR v, rgb_g = correctedG v, rgb_b = correctedB v\<rparr>)"
    by (simp add: blend_def significant_def Let_def new)
  have "correctColor c key =
      Inr \<lparr>rgb_r = clamp255 (rgb_r (blend hs v correctedSat)),
           rgb_g = clamp255 (rgb_g (blend hs v correctedSat)),
           rgb_b = clamp255 (rgb_b (blend hs v correctedSat))\<rparr>"
    unfolding correctColor_branches[OF reg] hs[symmetric] Let_def v[symmetric]
    by (simp add: boostSaturation_def cs)
  also have "\<dots> = Inr (blend hs v correctedSat)"
    unfolding bl using vr ar(2,3) ag(2,3) ab(2,3) by (simp add: clamp255_id)
  finally have 1: "correctColor c key = Inr (blend hs v correctedSat)" .
  show ?thesis
    unfolding 1 bl using ar(1) ag(1) ab(1) by (simp add: average_def)
qed

theorem blend_condition_witness:
  "DEVICE_PROFILES ''tl-fans'' = Some tl_fans \<and>
   rgbToHsl 255 102 0 = \<lparr>hsl_h = 24, hsl_s = 100, hsl_l = 50\<rparr> \<and>
   min 100 (fmul 100 (saturationBoost tl_fans)) = 100 \<and>
   2 < \<bar>fsub 14 24\<bar> \<and>
   hslToRgb 14 100 50 = \<lparr>rgb_r = 255, rgb_g = 60, rgb_b = 0\<rparr> \<and>
   correctColor \<lparr>rgb_r = 255, rgb_g = 102, rgb_b = 0\<rparr> ''tl-fans'' =
     Inr \<lparr>rgb_r = (255 + 255 + 1) div 2, rgb_g = (8 + 60 + 1) div 2,
          rgb_b = (0 + 0 + 1) div 2\<rparr> \<and>
   rgbToHsl 0 0 255 = \<lparr>hsl_h = 240, hsl_s = 100, hsl_l = 50\<rparr> \<and>
   \<not> 2 < \<bar>fsub 240 240\<bar> \<and> \<not> 5 < \<bar>fsub 100 100\<bar> \<and>
   correctColor \<lparr>rgb_r = 0, rgb_g = 0, rgb_b = 255\<rparr> ''tl-fans'' =
     Inr \<lparr>rgb_r = 0, rgb_g = 0, rgb_b = 242\<rparr>"
proof -
  have o: "rgbToHsl (rgb_r \<lparr>rgb_r = 255, rgb_g = 102, rgb_b = 0\<rparr>)
      (rgb_g \<lparr>rgb_r = 255, rgb_g = 102, rgb_b = 0\<rparr>)
      (rgb_b \<lparr>rgb_r = 255, rgb_g = 102, rgb_b = 0\<rparr>) = \<lparr>hsl_h = 24, hsl_s = 100, hsl_l = 50\<rparr>"
    by (simp add: cc_orange_hsl)
  have b: "rgbToHsl (rgb_r \<lparr>rgb_r = 0, rgb_g = 0, rgb_b = 255\<rparr>)
      (rgb_g \<lparr>rgb_r = 0, rgb_g = 0, rgb_b = 255\<rparr>)
      (rgb_b \<lparr>rgb_r = 0, rgb_g = 0, rgb_b = 255\<rparr>) = \<lparr>hsl_h = 240, hsl_s = 100, hsl_l = 50\<rparr>"
    by (simp add: cc_blue_hsl)
  have so: "min 100 (fmul 100 (saturationBoost tl_fans)) = 100"
    using cc_orange_sat by (simp add: boostSaturation_def)
  have sg: "2 < \<bar>fsub 14 24\<bar>"
    using cc_orange_significant by (simp add: significant_def cc_orange_ops_1 cc_orange_ops_2)
  have nb: "\<not> 2 < \<bar>fsub 240 240\<bar> \<and> \<not> 5 < \<bar>fsub 100 100\<bar>"
    using cc_blue_significant by (simp add: significant_def cc_blue_ops_1 cc_blue_ops_2)
  note t1 = blend_condition[OF DEVICE_PROFILES_tl_fans _ _ _ _ _ _ o[symmetric] refl refl refl]
  note t2 = blend_condition[OF DEVICE_PROFILES_tl_fans _ _ _ _ _ _ b[symmetric] refl refl refl]
  have 1: "correctColor \<lparr>rgb_r = 255, rgb_g = 102, rgb_b = 0\<rparr> ''tl-fans'' =
     Inr \<lparr>rgb_r = (255 + 255 + 1) div 2, rgb_g = (8 + 60 + 1) div 2,
          rgb_b = (0 + 0 + 1) div 2\<rparr>"
    using t1 by (simp add: cc_orange)
  have 2: "correctColor \<lparr>rgb_r = 0, rgb_g = 0, rgb_b = 255\<rparr> ''tl-fans'' =
     Inr \<lparr>rgb_r = 0, rgb_g = 0, rgb_b = 242\<rparr>"
    using t2 by (simp add: cc_blue)
  from 1 2 so sg nb show ?thesis
    by (simp add: DEVICE_PROFILES_tl_fans cc_orange_hsl cc_orange_new cc_blue_hsl)
qed

section \<open>The round trip through HSL\<close>

text \<open>
  \<open>rgbToHsl\<close> rounds the hue to a whole degree and the saturation and the lightness to
  whole percents, so \<open>hslToRgb\<close> starts from a hue that is off by up to \<open>1/720\<close> of a turn
  and from a saturation and a lightness that are off by up to \<open>1/200\<close>. The section bounds
  what this costs on a channel. The two conversions are first compared with the exact HSL
  model, from which the binary64 operations differ by less than a millionth; in the exact model
  a channel is \<open>l + c * (trapezoid t - 1/2)\<close> with the chroma \<open>c = (1 - \<bar>2 * l - 1\<bar>) * s\<close>,
  and \<open>trapezoid\<close> changes by at most six times the change of its argument.
\<close>

subsection \<open>The hue wave\<close>

lemma trapezoid_range: "0 \<le> trapezoid t" "trapezoid t \<le> 1"
  by (simp_all add: trapezoid_def)

lemma min_lipschitz:
  fixes a b c d :: rat
  assumes "\<bar>a - c\<bar> \<le> k" "\<bar>b - d\<bar> \<le> k"
  shows "\<bar>min a b - min c d\<bar> \<le> k"
  using assms by (simp add: min_def abs_le_iff) 

lemma max_lipschitz:
  fixes a b c d :: rat
  assumes "\<bar>a - c\<bar> \<le> k" "\<bar>b - d\<bar> \<le> k"
  shows "\<bar>max a b - max c d\<bar> \<le> k"
  using assms by (simp add: max_def abs_le_iff)

lemma abs_lipschitz:
  fixes a b c :: rat
  shows "\<bar>\<bar>a - c\<bar> - \<bar>b - c\<bar>\<bar> \<le> \<bar>a - b\<bar>"
  by (simp add: abs_le_iff abs_if)

lemma trapezoid_lipschitz: "\<bar>trapezoid a - trapezoid b\<bar> \<le> 6 * \<bar>a - b\<bar>"
proof -
  define k where "k = \<bar>a - b\<bar>"
  define A where "A = min \<bar>a - 1/3\<bar> (min \<bar>a - 4/3\<bar> \<bar>a + 2/3\<bar>)"
  define B where "B = min \<bar>b - 1/3\<bar> (min \<bar>b - 4/3\<bar> \<bar>b + 2/3\<bar>)"
  have 1: "\<bar>\<bar>a - c\<bar> - \<bar>b - c\<bar>\<bar> \<le> k" for c unfolding k_def by (rule abs_lipschitz)
  have 2: "\<bar>\<bar>a + 2/3\<bar> - \<bar>b + 2/3\<bar>\<bar> \<le> k" using 1[of "- (2/3)"] by simp
  have "\<bar>min \<bar>a - 4/3\<bar> \<bar>a + 2/3\<bar> - min \<bar>b - 4/3\<bar> \<bar>b + 2/3\<bar>\<bar> \<le> k"
    using 1[of "4/3"] 2 by (rule min_lipschitz)
  with 1[of "1/3"] have "\<bar>A - B\<bar> \<le> k" unfolding A_def B_def by (rule min_lipschitz)
  then have "\<bar>(2 - 6 * A) - (2 - 6 * B)\<bar> \<le> 6 * k" by linarith
  moreover have k0: "\<bar>(1::rat) - 1\<bar> \<le> 6 * k" "\<bar>(0::rat) - 0\<bar> \<le> 6 * k" by (simp_all add: k_def)
  ultimately have "\<bar>min 1 (2 - 6 * A) - min 1 (2 - 6 * B)\<bar> \<le> 6 * k"
    by (intro min_lipschitz)
  with k0(2) have "\<bar>max 0 (min 1 (2 - 6 * A)) - max 0 (min 1 (2 - 6 * B))\<bar> \<le> 6 * k"
    by (rule max_lipschitz)
  then show ?thesis by (simp only: k_def trapezoid_def A_def B_def)
qed

lemma trapezoid_rise:
  assumes "0 \<le> t" "t \<le> 1/6" shows "trapezoid t = 6 * t"
proof -
  have "\<bar>t - 1/3\<bar> = 1/3 - t" "\<bar>t - 4/3\<bar> = 4/3 - t" "\<bar>t + 2/3\<bar> = t + 2/3"
    using assms by linarith+
  then show ?thesis using assms by (simp add: trapezoid_def)
qed

lemma trapezoid_top:
  assumes "1/6 \<le> t" "t \<le> 1/2" shows "trapezoid t = 1"
proof -
  define m where "m = min \<bar>t - 1/3\<bar> (min \<bar>t - 4/3\<bar> \<bar>t + 2/3\<bar>)"
  have "m \<le> \<bar>t - 1/3\<bar>" unfolding m_def by (rule min.cobounded1)
  moreover have "\<bar>t - 1/3\<bar> \<le> 1/6" using assms by linarith
  ultimately have "1 \<le> 2 - 6 * m" by linarith
  then show ?thesis by (simp add: trapezoid_def m_def[symmetric])
qed

lemma trapezoid_fall:
  assumes "1/2 \<le> t" "t \<le> 2/3" shows "trapezoid t = 4 - 6 * t"
proof -
  have "\<bar>t - 1/3\<bar> = t - 1/3" "\<bar>t - 4/3\<bar> = 4/3 - t" "\<bar>t + 2/3\<bar> = t + 2/3"
    using assms by linarith+
  then show ?thesis using assms by (simp add: trapezoid_def)
qed

lemma trapezoid_bottom:
  assumes "2/3 \<le> t" "t \<le> 1" shows "trapezoid t = 0"
proof -
  define m where "m = min \<bar>t - 1/3\<bar> (min \<bar>t - 4/3\<bar> \<bar>t + 2/3\<bar>)"
  have "1/3 \<le> \<bar>t - 1/3\<bar>" "1/3 \<le> \<bar>t - 4/3\<bar>" "1/3 \<le> \<bar>t + 2/3\<bar>"
    using assms by linarith+
  then have "1/3 \<le> m" unfolding m_def by simp
  then have "2 - 6 * m \<le> 0" by linarith
  then show ?thesis by (simp add: trapezoid_def m_def[symmetric])
qed

lemma trapezoid_period:
  assumes "- 1/2 \<le> t" "t \<le> 1/2"
  shows "trapezoid (t + 1) = trapezoid t"
proof -
  have a: "\<bar>t + 1 - 4/3\<bar> = \<bar>t - 1/3\<bar>" "\<bar>t + 1 - 1/3\<bar> = \<bar>t + 2/3\<bar>" by simp_all
  have b: "\<bar>t - 1/3\<bar> \<le> \<bar>t - 4/3\<bar>" "\<bar>t - 1/3\<bar> \<le> \<bar>t + 1 + 2/3\<bar>"
    using assms by linarith+
  have "min \<bar>t + 1 - 1/3\<bar> (min \<bar>t + 1 - 4/3\<bar> \<bar>t + 1 + 2/3\<bar>) =
      min \<bar>t + 2/3\<bar> (min \<bar>t - 1/3\<bar> \<bar>t + 1 + 2/3\<bar>)"
    by (simp only: a)
  also have "\<dots> = min \<bar>t + 2/3\<bar> \<bar>t - 1/3\<bar>"
    using b(2) by (simp only: min_absorb1)
  also have "\<dots> = min (min \<bar>t - 1/3\<bar> \<bar>t - 4/3\<bar>) \<bar>t + 2/3\<bar>"
    using b(1) by (simp only: min_absorb1 min.commute)
  also have "\<dots> = min \<bar>t - 1/3\<bar> (min \<bar>t - 4/3\<bar> \<bar>t + 2/3\<bar>)"
    by (simp only: min.assoc)
  finally show ?thesis by (simp only: trapezoid_def)
qed

subsection \<open>From HSL to RGB: the distance to the exact model\<close>

lemma abs_product_le:
  fixes a b :: rat
  assumes "\<bar>a\<bar> \<le> A" "\<bar>b\<bar> \<le> B"
  shows "\<bar>a * b\<bar> \<le> A * B"
proof -
  have "\<bar>a * b\<bar> = \<bar>a\<bar> * \<bar>b\<bar>" by (rule abs_mult)
  also have "\<dots> \<le> A * B" using assms by (intro mult_mono) auto
  finally show ?thesis .
qed

lemma trapezoid_near_top:
  assumes "1/6 - k \<le> t" "t \<le> 1/2" "0 \<le> k"
  shows "\<bar>trapezoid t - 1\<bar> \<le> 6 * k"
proof (cases "1/6 \<le> t")
  case True
  then show ?thesis using assms by (simp add: trapezoid_top)
next
  case False
  have "trapezoid (1/6) = 1" by (rule trapezoid_top) simp_all
  then have "\<bar>trapezoid t - 1\<bar> \<le> 6 * \<bar>t - 1/6\<bar>"
    using trapezoid_lipschitz[of t "1/6"] by simp
  also have "\<dots> \<le> 6 * k" using False assms by simp
  finally show ?thesis .
qed

lemma trapezoid_near_bottom:
  assumes "2/3 - k \<le> t" "t \<le> 1" "0 \<le> k"
  shows "\<bar>trapezoid t\<bar> \<le> 6 * k"
proof (cases "2/3 \<le> t")
  case True
  then show ?thesis using assms by (simp add: trapezoid_bottom)
next
  case False
  have "trapezoid (2/3) = 0" by (rule trapezoid_bottom) simp_all
  then have "\<bar>trapezoid t\<bar> \<le> 6 * \<bar>t - 2/3\<bar>"
    using trapezoid_lipschitz[of t "2/3"] by simp
  also have "\<dots> \<le> 6 * k" using False assms by simp
  finally show ?thesis .
qed

lemma hue2rgb_near:
  assumes p: "\<bar>p - P\<bar> \<le> \<delta>" and q: "\<bar>q - Q\<bar> \<le> \<delta>"
    and P: "0 \<le> P" "P \<le> 1" and Q: "0 \<le> Q" "Q \<le> 1"
    and \<delta>: "\<delta> \<le> 1" and t0: "- 1/2 \<le> t0" "t0 \<le> 3/2"
  shows "\<bar>hue2rgb p q t0 - (P + (Q - P) * trapezoid t0)\<bar> \<le> 3 * \<delta> + 32 / 2 ^ 44"
proof -
  define e :: rat where "e = 1 / 2 ^ 44"
  have e: "0 < e" "e \<le> 1 / 1000000" by (simp_all add: e_def)
  have near: "\<bar>fl x - x\<bar> \<le> e" if "\<bar>x\<bar> \<le> 512" for x
    using fl_error_512[OF that] by (simp add: e_def)
  have \<delta>0: "0 \<le> \<delta>" using p by linarith
  define t1 where "t1 = (if t0 < 0 then fadd t0 1 else t0)"
  define t where "t = (if 1 < t1 then fsub t1 1 else t1)"
  define X where "X = Q - P"
  define D where "D = fsub q p"
  have X: "\<bar>X\<bar> \<le> 1" using P Q by (simp add: X_def abs_if)
  have "\<bar>q - p\<bar> \<le> 512" using p q P Q \<delta> by linarith
  from near[OF this] have D: "\<bar>D - X\<bar> \<le> 2 * \<delta> + e"
    using p q unfolding D_def fsub_def X_def by linarith
  have tt: "0 \<le> t \<and> t \<le> 1 \<and> \<bar>trapezoid t - trapezoid t0\<bar> \<le> 6 * e"
  proof (cases "t0 < 0")
    case True
    have u: "0 \<le> fl (t0 + 1) \<and> fl (t0 + 1) \<le> 1" using True t0 by (intro fl_unit) linarith+
    then have t: "t = fl (t0 + 1)" using True by (simp add: t_def t1_def fadd_def)
    have "\<bar>t0 + 1\<bar> \<le> 512" using True t0 by linarith
    from near[OF this] have n: "\<bar>t - (t0 + 1)\<bar> \<le> e" by (simp add: t)
    have "\<bar>trapezoid t - trapezoid (t0 + 1)\<bar> \<le> 6 * \<bar>t - (t0 + 1)\<bar>" by (rule trapezoid_lipschitz)
    moreover have "trapezoid (t0 + 1) = trapezoid t0" using True t0 by (intro trapezoid_period) linarith+
    ultimately show ?thesis using u n by (simp add: t)
  next
    case nneg: False
    show ?thesis
    proof (cases "1 < t0")
      case True
      have u: "0 \<le> fl (t0 - 1) \<and> fl (t0 - 1) \<le> 1" using True t0 by (intro fl_unit) linarith+
      have t: "t = fl (t0 - 1)" using True nneg by (simp add: t_def t1_def fsub_def)
      have "\<bar>t0 - 1\<bar> \<le> 512" using True t0 by linarith
      from near[OF this] have n: "\<bar>t - (t0 - 1)\<bar> \<le> e" by (simp add: t)
      have "\<bar>trapezoid t - trapezoid (t0 - 1)\<bar> \<le> 6 * \<bar>t - (t0 - 1)\<bar>" by (rule trapezoid_lipschitz)
      moreover have "trapezoid ((t0 - 1) + 1) = trapezoid (t0 - 1)"
        using True t0 by (intro trapezoid_period) linarith+
      ultimately show ?thesis using u n by (simp add: t)
    next
      case False
      then have "t = t0" using nneg by (simp add: t_def t1_def)
      then show ?thesis using False nneg e by simp
    qed
  qed
  then have t: "0 \<le> t" "t \<le> 1" by simp_all
  have eq: "hue2rgb p q t0 =
    (if t < fdiv 1 6 then fadd p (fmul (fmul D 6) t)
     else if t < fdiv 1 2 then q
     else if t < fdiv 2 3 then fadd p (fmul (fmul D (fsub (fdiv 2 3) t)) 6)
     else p)"
    by (simp add: hue2rgb_def Let_def t_def t1_def D_def)
  have c16: "1/6 - e \<le> fdiv 1 6" "fdiv 1 6 \<le> 1/6" and c23: "2/3 - e \<le> fdiv 2 3" "fdiv 2 3 \<le> 2/3"
    by (simp_all add: fdiv_constants e_def)
  have pb: "\<bar>p\<bar> \<le> 2" using p P \<delta> by linarith
  consider "t < fdiv 1 6" | "\<not> t < fdiv 1 6" "t < fdiv 1 2"
    | "\<not> t < fdiv 1 6" "\<not> t < fdiv 1 2" "t < fdiv 2 3"
    | "\<not> t < fdiv 1 6" "\<not> t < fdiv 1 2" "\<not> t < fdiv 2 3" by blast
  then have main: "\<bar>hue2rgb p q t0 - (P + X * trapezoid t)\<bar> \<le> 3 * \<delta> + 26 * e"
  proof cases
    case 1
    then have t6: "t \<le> 1 / 6" using c16 by linarith
    have tr: "trapezoid t = 6 * t" using t(1) t6 by (rule trapezoid_rise)
    have ta: "\<bar>t\<bar> \<le> 1/6" using t t6 by linarith
    define D6 where "D6 = fmul D 6"
    define E where "E = D6 - 6 * X"
    define Et where "Et = E * t"
    define Xt where "Xt = X * t"
    have "\<bar>D * 6\<bar> \<le> 512" using D X \<delta> e by linarith
    from near[OF this] have E: "\<bar>E\<bar> \<le> 12 * \<delta> + 7 * e"
      using D unfolding D6_def fmul_def E_def by linarith
    have "\<bar>Et\<bar> \<le> (12 * \<delta> + 7 * e) * (1/6)" unfolding Et_def using E ta by (rule abs_product_le)
    also have "\<dots> \<le> 2 * \<delta> + 2 * e" using e by simp
    finally have Et: "\<bar>Et\<bar> \<le> 2 * \<delta> + 2 * e" .
    have "\<bar>Xt\<bar> \<le> 1 * (1/6)" unfolding Xt_def using X ta by (rule abs_product_le)
    then have Xt: "\<bar>Xt\<bar> \<le> 1/6" by simp
    have split: "D6 * t = 6 * Xt + Et" by (simp add: E_def Et_def Xt_def algebra_simps)
    define M where "M = fmul D6 t"
    have "\<bar>D6 * t\<bar> \<le> 512" using Et Xt e \<delta> unfolding split by linarith
    from near[OF this] have M: "\<bar>M - (6 * Xt + Et)\<bar> \<le> e" by (simp add: M_def fmul_def split)
    have "\<bar>p + M\<bar> \<le> 512" using M Et Xt pb e \<delta> by linarith
    from near[OF this] have "\<bar>fadd p M - (p + M)\<bar> \<le> e" by (simp add: fadd_def)
    with M Et p have "\<bar>fadd p M - (P + 6 * Xt)\<bar> \<le> 3 * \<delta> + 26 * e" by linarith
    moreover have "P + 6 * Xt = P + X * (6 * t)" by (simp add: Xt_def)
    ultimately show ?thesis using 1 by (simp add: eq M_def D6_def tr)
  next
    case 2
    then have "1/6 - e \<le> t" "t \<le> 1/2" using c16 by (simp_all add: fdiv_constants)
    then have "\<bar>trapezoid t - 1\<bar> \<le> 6 * e" using e by (intro trapezoid_near_top) simp_all
    with X have "\<bar>X * (trapezoid t - 1)\<bar> \<le> 1 * (6 * e)" by (rule abs_product_le)
    then have "\<bar>X * (trapezoid t - 1)\<bar> \<le> 6 * e" by simp
    moreover define Y where "Y = X * (trapezoid t - 1)"
    moreover have "q - (P + X * trapezoid t) = (q - Q) - Y"
      by (simp add: X_def Y_def algebra_simps)
    ultimately have "\<bar>q - (P + X * trapezoid t)\<bar> \<le> 3 * \<delta> + 26 * e" using q \<delta>0 e by linarith
    then show ?thesis using 2 by (simp add: eq)
  next
    case 3
    then have th: "1 / 2 \<le> t" "t \<le> 2 / 3" using c23 by (simp_all add: fdiv_constants)
    have tr: "trapezoid t = 4 - 6 * t" using th by (rule trapezoid_fall)
    define u where "u = fsub (fdiv 2 3) t"
    have "0 \<le> fdiv 2 3 - t" using 3 by simp
    then have u0: "0 \<le> u" unfolding u_def fsub_def by (rule fl_nonneg)
    have "fdiv 2 3 - t \<le> 1 / 6" using th c23 by linarith
    then have "fl (fdiv 2 3 - t) \<le> fl (1 / 6)" by (rule fl_mono)
    then have u6: "u \<le> 1 / 6" using c16 by (simp add: u_def fsub_def fdiv_def)
    have ua: "\<bar>u\<bar> \<le> 1/6" using u0 u6 by linarith
    have "\<bar>fdiv 2 3 - t\<bar> \<le> 512" using th c23 e by linarith
    from near[OF this] have un: "\<bar>u - (2/3 - t)\<bar> \<le> 2 * e"
      using c23 unfolding u_def fsub_def by linarith
    define DU where "DU = fmul D u"
    define Eu where "Eu = (D - X) * u"
    define Xs where "Xs = X * (2/3 - t)"
    define Xn where "Xn = X * (u - (2/3 - t))"
    have "\<bar>Eu\<bar> \<le> (2 * \<delta> + e) * (1/6)" unfolding Eu_def using D ua by (rule abs_product_le)
    also have "\<dots> \<le> \<delta> / 3 + e" using e by simp
    finally have Eu: "\<bar>Eu\<bar> \<le> \<delta> / 3 + e" .
    have "\<bar>Xn\<bar> \<le> 1 * (2 * e)" unfolding Xn_def using X un by (rule abs_product_le)
    then have Xn: "\<bar>Xn\<bar> \<le> 2 * e" by simp
    have "\<bar>2/3 - t\<bar> \<le> 1/6" using th by linarith
    with X have "\<bar>Xs\<bar> \<le> 1 * (1/6)" unfolding Xs_def by (rule abs_product_le)
    then have Xs: "\<bar>Xs\<bar> \<le> 1/6" by simp
    have split: "D * u = Xs + Xn + Eu" by (simp add: Eu_def Xs_def Xn_def algebra_simps)
    have "\<bar>D * u\<bar> \<le> 512" using Eu Xs Xn e \<delta> unfolding split by linarith
    from near[OF this] have DU: "\<bar>DU - (Xs + Xn + Eu)\<bar> \<le> e" by (simp add: DU_def fmul_def split)
    define M where "M = fmul DU 6"
    have "\<bar>DU * 6\<bar> \<le> 512" using DU Eu Xs Xn e \<delta> by linarith
    from near[OF this] have M: "\<bar>M - DU * 6\<bar> \<le> e" by (simp add: M_def fmul_def)
    have "\<bar>p + M\<bar> \<le> 512" using M DU Eu Xs Xn pb e \<delta> by linarith
    from near[OF this] have "\<bar>fadd p M - (p + M)\<bar> \<le> e" by (simp add: fadd_def)
    with M DU Eu Xn p have "\<bar>fadd p M - (P + 6 * Xs)\<bar> \<le> 3 * \<delta> + 26 * e" by linarith
    moreover have "6 * Xs = X * (4 - 6 * t)" by (simp add: Xs_def algebra_simps)
    ultimately show ?thesis using 3 by (simp add: eq M_def DU_def u_def tr)
  next
    case 4
    then have "2/3 - e \<le> t" using c23 by linarith
    then have "\<bar>trapezoid t\<bar> \<le> 6 * e" using t e by (intro trapezoid_near_bottom) simp_all
    with X have "\<bar>X * trapezoid t\<bar> \<le> 1 * (6 * e)" by (rule abs_product_le)
    moreover define Y where "Y = X * trapezoid t"
    ultimately have "\<bar>Y\<bar> \<le> 6 * e" by simp
    then have "\<bar>p - (P + Y)\<bar> \<le> 3 * \<delta> + 26 * e" using p \<delta>0 e by linarith
    then have "\<bar>p - (P + X * trapezoid t)\<bar> \<le> 3 * \<delta> + 26 * e" by (simp add: Y_def)
    then show ?thesis using 4 by (simp add: eq)
  qed
  define Y where "Y = X * (trapezoid t - trapezoid t0)"
  define Z where "Z = P + X * trapezoid t0"
  have "\<bar>Y\<bar> \<le> 1 * (6 * e)"
    unfolding Y_def using X tt by (intro abs_product_le) simp_all
  then have "\<bar>Y\<bar> \<le> 6 * e" by simp
  moreover have "P + X * trapezoid t = Z + Y"
    by (simp add: Y_def Z_def algebra_simps)
  ultimately have "\<bar>hue2rgb p q t0 - Z\<bar> \<le> 3 * \<delta> + 32 * e"
    using main by linarith
  then have "\<bar>hue2rgb p q t0 - (P + X * trapezoid t0)\<bar> \<le> 3 * \<delta> + 32 * e"
    by (simp add: Z_def)
  then show ?thesis by (simp add: X_def e_def)
qed

lemma chroma_weight:
  fixes l k :: rat
  shows "l \<le> 1/2 + k \<Longrightarrow> 0 \<le> k \<Longrightarrow> \<bar>(1 - \<bar>2 * l - 1\<bar>) - 2 * l\<bar> \<le> 4 * k"
    and "1/2 - k \<le> l \<Longrightarrow> 0 \<le> k \<Longrightarrow> \<bar>(1 - \<bar>2 * l - 1\<bar>) - (2 - 2 * l)\<bar> \<le> 4 * k"
    and "0 \<le> l \<Longrightarrow> l \<le> 1 \<Longrightarrow> 0 \<le> 1 - \<bar>2 * l - 1\<bar> \<and> 1 - \<bar>2 * l - 1\<bar> \<le> 2 * l \<and> 1 - \<bar>2 * l - 1\<bar> \<le> 2 * (1 - l)"
  by (simp_all add: abs_if)

lemma hsl_pq_near:
  assumes s: "0 \<le> s" "s \<le> 1" "\<bar>sf - s\<bar> \<le> 1 / 2 ^ 44"
    and l: "0 \<le> l" "l \<le> 1" "\<bar>lf - l\<bar> \<le> 1 / 2 ^ 44"
    and C: "C = (1 - \<bar>2 * l - 1\<bar>) * s"
    and q: "q = (if lf < 1/2 then fmul lf (fadd 1 sf) else fsub (fadd lf sf) (fmul lf sf))"
    and p: "p = fsub (fmul 2 lf) q"
  shows "\<bar>q - (l + C / 2)\<bar> \<le> 14 / 2 ^ 44" "\<bar>p - (l - C / 2)\<bar> \<le> 14 / 2 ^ 44"
    "0 \<le> l - C / 2" "l + C / 2 \<le> 1" "0 \<le> C" "C \<le> 1"
proof -
  define e :: rat where "e = 1 / 2 ^ 44"
  have e: "0 < e" "e \<le> 1 / 1000000" by (simp_all add: e_def)
  have near: "\<bar>fl x - x\<bar> \<le> e" if "\<bar>x\<bar> \<le> 512" for x
    using fl_error_512[OF that] by (simp add: e_def)
  note s3 = s(3)[folded e_def] and l3 = l(3)[folded e_def]
  define W where "W = 1 - \<bar>2 * l - 1\<bar>"
  have W: "0 \<le> W" "W \<le> 2 * l" "W \<le> 2 - 2 * l"
    using chroma_weight(3)[OF l(1,2)] by (simp_all add: W_def)
  have CW: "C = W * s" by (simp add: C W_def)
  have "0 \<le> W * s" using W s by (intro mult_nonneg_nonneg)
  then show C0: "0 \<le> C" by (simp add: CW)
  have "W * s \<le> W * 1" using W s by (intro mult_left_mono) auto
  then have CleW: "C \<le> W" by (simp add: CW)
  then show "C \<le> 1" using W l(1,2) by linarith
  show "0 \<le> l - C / 2" "l + C / 2 \<le> 1" using CleW W by linarith+
  define ls where "ls = l * s"
  have ls: "0 \<le> ls" "ls \<le> 1"
    using s l by (simp_all add: ls_def mult_le_one)
  have L2: "\<bar>fmul 2 lf - 2 * l\<bar> \<le> 3 * e"
  proof -
    have "\<bar>2 * lf\<bar> \<le> 512" using l l3 e by linarith
    from near[OF this] show ?thesis using l3 unfolding fmul_def by linarith
  qed
  have qn: "\<bar>q - (l + C / 2)\<bar> \<le> 10 * e"
  proof (cases "lf < 1/2")
    case True
    define A where "A = fadd 1 sf"
    have "\<bar>1 + sf\<bar> \<le> 512" using s s3 e by linarith
    from near[OF this] have A: "\<bar>A - (1 + s)\<bar> \<le> 2 * e"
      using s3 unfolding A_def fadd_def by linarith
    define E1 where "E1 = (lf - l) * A"
    define E2 where "E2 = l * (A - (1 + s))"
    have "\<bar>A\<bar> \<le> 3" using A s e by linarith
    with l3 have "\<bar>E1\<bar> \<le> e * 3" unfolding E1_def by (rule abs_product_le)
    then have E1: "\<bar>E1\<bar> \<le> 3 * e" by simp
    have "\<bar>l\<bar> \<le> 1" using l by linarith
    then have "\<bar>E2\<bar> \<le> 1 * (2 * e)" unfolding E2_def using A by (rule abs_product_le)
    then have E2: "\<bar>E2\<bar> \<le> 2 * e" by simp
    have split: "lf * A = l + ls + E1 + E2" by (simp add: E1_def E2_def ls_def algebra_simps)
    have "\<bar>lf * A\<bar> \<le> 512" unfolding split using l ls E1 E2 e by linarith
    moreover have "q = fl (lf * A)" using True by (simp add: q fmul_def A_def)
    ultimately have "\<bar>q - lf * A\<bar> \<le> e" by (simp add: near)
    then have qq: "\<bar>q - (l + ls + E1 + E2)\<bar> \<le> e" by (simp only: split)
    have "l \<le> 1/2 + e" using True l3 by linarith
    then have "\<bar>W - 2 * l\<bar> \<le> 4 * e" unfolding W_def using e by (intro chroma_weight(1)) simp_all
    then have "\<bar>W / 2 - l\<bar> \<le> 2 * e" by linarith
    moreover have "\<bar>s\<bar> \<le> 1" using s by linarith
    ultimately have "\<bar>(W / 2 - l) * s\<bar> \<le> 2 * e * 1" by (rule abs_product_le)
    moreover have "(W / 2 - l) * s = C / 2 - ls" by (simp add: CW ls_def algebra_simps)
    ultimately have "\<bar>C / 2 - ls\<bar> \<le> 2 * e" by simp
    with qq E1 E2 show ?thesis by linarith
  next
    case False
    define A where "A = fadd lf sf"
    define B where "B = fmul lf sf"
    have "\<bar>lf + sf\<bar> \<le> 512" using s l s3 l3 e by linarith
    from near[OF this] have A: "\<bar>A - (l + s)\<bar> \<le> 3 * e"
      using s3 l3 unfolding A_def fadd_def by linarith
    define E1 where "E1 = (lf - l) * sf"
    define E2 where "E2 = l * (sf - s)"
    have "\<bar>sf\<bar> \<le> 2" using s s3 e by linarith
    with l3 have "\<bar>E1\<bar> \<le> e * 2" unfolding E1_def by (rule abs_product_le)
    then have E1: "\<bar>E1\<bar> \<le> 2 * e" by simp
    have "\<bar>l\<bar> \<le> 1" using l by linarith
    then have "\<bar>E2\<bar> \<le> 1 * e" unfolding E2_def using s3 by (rule abs_product_le)
    then have E2: "\<bar>E2\<bar> \<le> e" by simp
    have split: "lf * sf = ls + E1 + E2" by (simp add: E1_def E2_def ls_def algebra_simps)
    have "\<bar>lf * sf\<bar> \<le> 512" unfolding split using ls E1 E2 e by linarith
    then have "\<bar>B - lf * sf\<bar> \<le> e" unfolding B_def fmul_def by (rule near)
    then have B: "\<bar>B - (ls + E1 + E2)\<bar> \<le> e" by (simp only: split)
    have "\<bar>A - B\<bar> \<le> 512" using A B E1 E2 ls s l e by linarith
    from near[OF this] have qq: "\<bar>q - (A - B)\<bar> \<le> e"
      using False by (simp add: q fsub_def A_def B_def)
    have "1/2 - e \<le> l" using False l3 by linarith
    then have "\<bar>W - (2 - 2 * l)\<bar> \<le> 4 * e" unfolding W_def using e by (intro chroma_weight(2)) simp_all
    then have "\<bar>W / 2 - (1 - l)\<bar> \<le> 2 * e" by linarith
    moreover have "\<bar>s\<bar> \<le> 1" using s by linarith
    ultimately have "\<bar>(W / 2 - (1 - l)) * s\<bar> \<le> 2 * e * 1" by (rule abs_product_le)
    moreover have "(W / 2 - (1 - l)) * s = C / 2 - (s - ls)" by (simp add: CW ls_def algebra_simps)
    ultimately have "\<bar>C / 2 - (s - ls)\<bar> \<le> 2 * e" by simp
    with qq A B E1 E2 show ?thesis by linarith
  qed
  then show "\<bar>q - (l + C / 2)\<bar> \<le> 14 / 2 ^ 44" using e by (simp add: e_def)
  have "\<bar>fmul 2 lf - q\<bar> \<le> 512" using L2 qn l(1,2) C0 CleW W e by linarith
  from near[OF this] have "\<bar>p - (fmul 2 lf - q)\<bar> \<le> e" by (simp add: p fsub_def)
  with L2 qn have "\<bar>p - (l - C / 2)\<bar> \<le> 14 * e" by linarith
  then show "\<bar>p - (l - C / 2)\<bar> \<le> 14 / 2 ^ 44" by (simp add: e_def)
qed

lemma js_round_abs: "\<bar>of_int (js_round y) - y\<bar> \<le> 1/2"
  using js_round_bounds[of y] by linarith

lemma hslToRgb_near:
  assumes "0 \<le> h0" "h0 \<le> 360" "0 \<le> s0" "s0 \<le> 100" "0 \<le> l0" "l0 \<le> 100"
    and h: "h = h0 / 360" and s: "s = s0 / 100" and l: "l = l0 / 100"
    and C: "C = (1 - \<bar>2 * l - 1\<bar>) * s"
  shows
    "\<bar>of_int (rgb_r (hslToRgb h0 s0 l0)) - 255 * (l + C * (trapezoid (h + 1/3) - 1/2))\<bar>
      \<le> 1/2 + 1 / 1000000"
    "\<bar>of_int (rgb_g (hslToRgb h0 s0 l0)) - 255 * (l + C * (trapezoid h - 1/2))\<bar>
      \<le> 1/2 + 1 / 1000000"
    "\<bar>of_int (rgb_b (hslToRgb h0 s0 l0)) - 255 * (l + C * (trapezoid (h - 1/3) - 1/2))\<bar>
      \<le> 1/2 + 1 / 1000000"
proof -
  define e :: rat where "e = 1 / 2 ^ 44"
  have e: "0 < e" "e \<le> 1 / 1000000000000" by (simp_all add: e_def)
  have near: "\<bar>fl x - x\<bar> \<le> e" if "\<bar>x\<bar> \<le> 512" for x
    using fl_error_512[OF that] by (simp add: e_def)
  define hf where "hf = fdiv h0 360"
  define sf where "sf = fdiv s0 100"
  define lf where "lf = fdiv l0 100"
  have hb: "0 \<le> h" "h \<le> 1" and sb: "0 \<le> s" "s \<le> 1" and lb: "0 \<le> l" "l \<le> 1"
    using assms(1-6) by (simp_all add: h s l)
  have hn: "\<bar>hf - h\<bar> \<le> e" unfolding hf_def fdiv_def h[symmetric] using hb by (intro near) linarith
  have sn: "\<bar>sf - s\<bar> \<le> e" unfolding sf_def fdiv_def s[symmetric] using sb by (intro near) linarith
  have ln: "\<bar>lf - l\<bar> \<le> e" unfolding lf_def fdiv_def l[symmetric] using lb by (intro near) linarith
  have out: "\<bar>of_int (js_round (fmul R 255)) - 255 * T\<bar> \<le> 1/2 + 1 / 1000000"
    if "\<bar>R - T\<bar> \<le> 100 * e" "0 \<le> T" "T \<le> 1" for R T
  proof -
    have "\<bar>R * 255\<bar> \<le> 512" using that e by linarith
    from near[OF this] have "\<bar>fmul R 255 - R * 255\<bar> \<le> e" by (simp add: fmul_def)
    with that(1) have "\<bar>fmul R 255 - 255 * T\<bar> \<le> 25501 * e" by linarith
    moreover have "\<bar>of_int (js_round (fmul R 255)) - fmul R 255\<bar> \<le> 1/2" by (rule js_round_abs)
    ultimately have "\<bar>of_int (js_round (fmul R 255)) - 255 * T\<bar> \<le> 1/2 + 25501 * e" by linarith
    also have "\<dots> \<le> 1/2 + 1 / 1000000" using e by simp
    finally show ?thesis .
  qed
  have "\<bar>of_int (rgb_r (hslToRgb h0 s0 l0)) - 255 * (l + C * (trapezoid (h + 1/3) - 1/2))\<bar>
      \<le> 1/2 + 1 / 1000000 \<and>
    \<bar>of_int (rgb_g (hslToRgb h0 s0 l0)) - 255 * (l + C * (trapezoid h - 1/2))\<bar>
      \<le> 1/2 + 1 / 1000000 \<and>
    \<bar>of_int (rgb_b (hslToRgb h0 s0 l0)) - 255 * (l + C * (trapezoid (h - 1/3) - 1/2))\<bar>
      \<le> 1/2 + 1 / 1000000"
  proof (cases "sf = 0")
    case True
    then have "s0 / 100 = 0" by (simp add: sf_def fdiv_def fl_eq_0_iff)
    then have C0: "C = 0" by (simp add: C s)
    have eq: "hslToRgb h0 s0 l0 = \<lparr>rgb_r = js_round (fmul lf 255), rgb_g = js_round (fmul lf 255),
        rgb_b = js_round (fmul lf 255)\<rparr>"
      using True by (simp add: hslToRgb_def Let_def sf_def lf_def)
    have "\<bar>lf - l\<bar> \<le> 100 * e" using ln e by linarith
    from out[OF this lb] show ?thesis by (simp add: eq C0)
  next
    case False
    define q where "q = (if lf < 1/2 then fmul lf (fadd 1 sf) else fsub (fadd lf sf) (fmul lf sf))"
    define p where "p = fsub (fmul 2 lf) q"
    define P where "P = l - C / 2"
    define Q where "Q = l + C / 2"
    note pq = hsl_pq_near[OF sb sn[unfolded e_def] lb ln[unfolded e_def] C q_def p_def, folded P_def Q_def]
    have eq: "hslToRgb h0 s0 l0 =
      \<lparr>rgb_r = js_round (fmul (hue2rgb p q (fadd hf (fdiv 1 3))) 255),
       rgb_g = js_round (fmul (hue2rgb p q hf) 255),
       rgb_b = js_round (fmul (hue2rgb p q (fsub hf (fdiv 1 3))) 255)\<rparr>"
      using False by (simp add: hslToRgb_def Let_def hf_def sf_def lf_def p_def q_def)
    have ch: "\<bar>of_int (js_round (fmul (hue2rgb p q t0) 255)) - 255 * (l + C * (trapezoid \<tau> - 1/2))\<bar>
        \<le> 1/2 + 1 / 1000000"
      if t0: "\<bar>t0 - \<tau>\<bar> \<le> 3 * e" "- 1/3 \<le> \<tau>" "\<tau> \<le> 4/3" for t0 \<tau>
    proof -
      define R where "R = hue2rgb p q t0"
      define T where "T = l + C * (trapezoid \<tau> - 1/2)"
      define Y where "Y = C * (trapezoid t0 - trapezoid \<tau>)"
      define Z where "Z = C * trapezoid \<tau>"
      have tb: "- 1/2 \<le> t0" "t0 \<le> 3/2" using t0 e by linarith+
      have "\<bar>R - (P + (Q - P) * trapezoid t0)\<bar> \<le> 3 * (14 / 2 ^ 44) + 32 / 2 ^ 44"
        unfolding R_def using pq(2,1) _ _ _ _ _ tb
        by (rule hue2rgb_near) (use pq in \<open>simp_all add: P_def Q_def\<close>)
      moreover have "P + (Q - P) * trapezoid t0 = T + Y"
        by (simp add: P_def Q_def T_def Y_def algebra_simps)
      ultimately have 1: "\<bar>R - (T + Y)\<bar> \<le> 74 * e" by (simp add: e_def)
      have "\<bar>trapezoid t0 - trapezoid \<tau>\<bar> \<le> 6 * \<bar>t0 - \<tau>\<bar>" by (rule trapezoid_lipschitz)
      also have "\<dots> \<le> 18 * e" using t0(1) by simp
      finally have tl: "\<bar>trapezoid t0 - trapezoid \<tau>\<bar> \<le> 18 * e" .
      have "\<bar>C\<bar> \<le> 1" using pq(5,6) by linarith
      then have "\<bar>Y\<bar> \<le> 1 * (18 * e)" unfolding Y_def using tl by (rule abs_product_le)
      then have Y: "\<bar>Y\<bar> \<le> 18 * e" by simp
      have RT: "\<bar>R - T\<bar> \<le> 100 * e" using 1 Y e by linarith
      have "0 \<le> Z" unfolding Z_def using pq(5) trapezoid_range(1) by (intro mult_nonneg_nonneg)
      moreover have "C * trapezoid \<tau> \<le> C * 1"
        using pq(5) trapezoid_range(2) by (intro mult_left_mono)
      then have "Z \<le> C" by (simp add: Z_def)
      moreover have "T = P + Z" by (simp add: T_def P_def Z_def algebra_simps)
      ultimately have "0 \<le> T" "T \<le> 1" using pq(3,4) unfolding P_def Q_def by linarith+
      from out[OF RT this] show ?thesis by (simp add: R_def T_def)
    qed
    have third: "\<bar>fdiv 1 3 - 1/3\<bar> \<le> e" unfolding fdiv_def by (intro near) simp
    have "\<bar>hf + fdiv 1 3\<bar> \<le> 512" using hn hb third e by linarith
    from near[OF this] have 1: "\<bar>fadd hf (fdiv 1 3) - (h + 1/3)\<bar> \<le> 3 * e"
      using hn third unfolding fadd_def by linarith
    have "\<bar>hf - fdiv 1 3\<bar> \<le> 512" using hn hb third e by linarith
    from near[OF this] have 3: "\<bar>fsub hf (fdiv 1 3) - (h - 1/3)\<bar> \<le> 3 * e"
      using hn third unfolding fsub_def by linarith
    have 2: "\<bar>hf - h\<bar> \<le> 3 * e" using hn e by linarith
    have r: "- 1/3 \<le> h + 1/3" "h + 1/3 \<le> 4/3" "- 1/3 \<le> h" "h \<le> 4/3"
      "- 1/3 \<le> h - 1/3" "h - 1/3 \<le> 4/3" using hb by simp_all
    show ?thesis unfolding eq using ch[OF 1 r(1,2)] ch[OF 2 r(3,4)] ch[OF 3 r(5,6)] by simp
  qed
  then show
    "\<bar>of_int (rgb_r (hslToRgb h0 s0 l0)) - 255 * (l + C * (trapezoid (h + 1/3) - 1/2))\<bar>
      \<le> 1/2 + 1 / 1000000"
    "\<bar>of_int (rgb_g (hslToRgb h0 s0 l0)) - 255 * (l + C * (trapezoid h - 1/2))\<bar>
      \<le> 1/2 + 1 / 1000000"
    "\<bar>of_int (rgb_b (hslToRgb h0 s0 l0)) - 255 * (l + C * (trapezoid (h - 1/3) - 1/2))\<bar>
      \<le> 1/2 + 1 / 1000000"
    by blast+
qed

subsection \<open>From RGB to HSL: the distance to the exact model\<close>

text \<open>
  The division by 255 is strictly monotone on 0..255, so the comparisons of the scaled
  channels, and the choice of the largest and the smallest, are those of the integer
  channels.
\<close>

lemma channel_near:
  assumes "0 \<le> i" "i \<le> 255"
  shows "\<bar>fdiv (of_int i) 255 - of_int i / 255\<bar> \<le> 1 / 2 ^ 44"
proof -
  have "(0::rat) \<le> of_int i" "(of_int i :: rat) \<le> 255" using assms by simp_all
  then have "\<bar>of_int i / 255 :: rat\<bar> \<le> 512" by simp
  then show ?thesis unfolding fdiv_def by (rule fl_error_512)
qed

lemma channel_strict_mono:
  assumes "0 \<le> i" "i < j" "j \<le> 255"
  shows "fdiv (of_int i) 255 < fdiv (of_int j) 255"
proof -
  define e :: rat where "e = 1 / 2 ^ 44"
  have e: "e \<le> 1 / 1000" by (simp add: e_def)
  define x :: rat where "x = of_int i / 255"
  define y :: rat where "y = of_int j / 255"
  have "i + 1 \<le> j" using assms by simp
  then have "(of_int (i + 1) :: rat) \<le> of_int j" by (simp only: of_int_le_iff)
  then have xy: "x + 1 / 255 \<le> y" by (simp add: x_def y_def)
  have "\<bar>fdiv (of_int i) 255 - x\<bar> \<le> e"
    unfolding x_def e_def using assms by (intro channel_near) simp_all
  moreover have "\<bar>fdiv (of_int j) 255 - y\<bar> \<le> e"
    unfolding y_def e_def using assms by (intro channel_near) simp_all
  ultimately show ?thesis using xy e by linarith
qed

lemma channel_less_iff:
  assumes "0 \<le> i" "i \<le> 255" "0 \<le> j" "j \<le> 255"
  shows "fdiv (of_int i) 255 < fdiv (of_int j) 255 \<longleftrightarrow> i < j"
proof
  assume "i < j"
  then show "fdiv (of_int i) 255 < fdiv (of_int j) 255" using assms by (intro channel_strict_mono)
next
  assume a: "fdiv (of_int i) 255 < fdiv (of_int j) 255"
  show "i < j"
  proof (rule ccontr)
    assume "\<not> i < j"
    then have "(of_int j :: rat) / 255 \<le> of_int i / 255" by simp
    then have "fdiv (of_int j) 255 \<le> fdiv (of_int i) 255" unfolding fdiv_def by (rule fl_mono)
    with a show False by simp
  qed
qed

lemma channel_eq_iff:
  assumes "0 \<le> i" "i \<le> 255" "0 \<le> j" "j \<le> 255"
  shows "fdiv (of_int i) 255 = fdiv (of_int j) 255 \<longleftrightarrow> i = j"
proof
  assume a: "fdiv (of_int i) 255 = fdiv (of_int j) 255"
  have "\<not> i < j" using channel_less_iff[OF assms] a by simp
  moreover have "\<not> j < i" using channel_less_iff[OF assms(3,4,1,2)] a by simp
  ultimately show "i = j" by simp
qed simp

lemma channel_max:
  "max (fdiv (of_int i) 255) (fdiv (of_int j) 255) = fdiv (of_int (max i j)) 255"
proof (cases "i \<le> j")
  case True
  then have "(of_int i :: rat) / 255 \<le> of_int j / 255" by simp
  then have "fdiv (of_int i) 255 \<le> fdiv (of_int j) 255" unfolding fdiv_def by (rule fl_mono)
  then show ?thesis using True by (simp add: max_def)
next
  case False
  then have "(of_int j :: rat) / 255 \<le> of_int i / 255" by simp
  then have "fdiv (of_int j) 255 \<le> fdiv (of_int i) 255" unfolding fdiv_def by (rule fl_mono)
  then show ?thesis using False by (simp add: max_def)
qed

lemma channel_min:
  "min (fdiv (of_int i) 255) (fdiv (of_int j) 255) = fdiv (of_int (min i j)) 255"
proof (cases "i \<le> j")
  case True
  then have "(of_int i :: rat) / 255 \<le> of_int j / 255" by simp
  then have "fdiv (of_int i) 255 \<le> fdiv (of_int j) 255" unfolding fdiv_def by (rule fl_mono)
  then show ?thesis using True by (simp add: min_def)
next
  case False
  then have "(of_int j :: rat) / 255 \<le> of_int i / 255" by simp
  then have "fdiv (of_int j) 255 \<le> fdiv (of_int i) 255" unfolding fdiv_def by (rule fl_mono)
  then show ?thesis using False by (simp add: min_def)
qed

lemma ratio_near:
  assumes a: "\<bar>a - X\<bar> \<le> 4 / 2 ^ 44" and n: "\<bar>n - Y\<bar> \<le> 4 / 2 ^ 44"
    and Y: "1 / 255 \<le> Y" and X: "\<bar>X\<bar> \<le> Y"
  shows "\<bar>fdiv a n - X / Y\<bar> \<le> 2049 / 2 ^ 44"
proof -
  define e :: rat where "e = 1 / 2 ^ 44"
  have e: "0 < e" "e \<le> 1 / 1000000000000" by (simp_all add: e_def)
  have a': "\<bar>a - X\<bar> \<le> 4 * e" and n': "\<bar>n - Y\<bar> \<le> 4 * e" using a n by (simp_all add: e_def)
  have Y0: "0 < Y" using Y by linarith
  have n0: "1 / 256 \<le> n" using n' Y e by linarith
  then have n1: "0 < n" by linarith
  define u where "u = a / n - X / Y"
  define E1 where "E1 = (a - X) * Y"
  define E2 where "E2 = X * (n - Y)"
  define eY where "eY = e * Y"
  have "u * n * Y = (a / n) * n * Y - (X / Y) * Y * n" by (simp add: u_def algebra_simps)
  also have "\<dots> = a * Y - X * n" using Y0 n1 by simp
  also have "\<dots> = E1 - E2" by (simp add: E1_def E2_def algebra_simps)
  finally have id: "u * n * Y = E1 - E2" .
  have "\<bar>Y\<bar> \<le> Y" using Y0 by simp
  with a' have "\<bar>E1\<bar> \<le> 4 * e * Y" unfolding E1_def by (rule abs_product_le)
  moreover have "4 * e * Y = 4 * eY" by (simp add: eY_def)
  ultimately have E1: "\<bar>E1\<bar> \<le> 4 * eY" by (simp only:)
  have "\<bar>E2\<bar> \<le> Y * (4 * e)" unfolding E2_def using X n' by (rule abs_product_le)
  moreover have "Y * (4 * e) = 4 * eY" by (simp add: eY_def)
  ultimately have E2: "\<bar>E2\<bar> \<le> 4 * eY" by (simp only:)
  from E1 E2 have "\<bar>E1 - E2\<bar> \<le> 8 * eY" by linarith
  moreover have "8 * eY = 8 * e * Y" by (simp add: eY_def)
  ultimately have "\<bar>u * n * Y\<bar> \<le> 8 * e * Y" by (simp only: id)
  moreover have "\<bar>u * n * Y\<bar> = (\<bar>u\<bar> * n) * Y" using Y0 n1 by (simp add: abs_mult)
  ultimately have "(\<bar>u\<bar> * n) * Y \<le> (8 * e) * Y" by (simp only:)
  then have un: "\<bar>u\<bar> * n \<le> 8 * e" using Y0 by (simp only: mult_le_cancel_right_pos)
  have "\<bar>u\<bar> * (1 / 256) \<le> \<bar>u\<bar> * n" using n0 by (intro mult_left_mono) simp_all
  with un have u: "\<bar>u\<bar> \<le> 2048 * e" by linarith
  have "\<bar>X / Y\<bar> = \<bar>X\<bar> / Y" using Y0 by (simp add: abs_divide)
  also have "\<dots> \<le> 1" using X Y0 by simp
  finally have "\<bar>X / Y\<bar> \<le> 1" .
  then have "\<bar>a / n\<bar> \<le> 512" using u e unfolding u_def by linarith
  then have "\<bar>fl (a / n) - a / n\<bar> \<le> e" unfolding e_def by (rule fl_error_512)
  then have "\<bar>fdiv a n - X / Y\<bar> \<le> 2049 * e" using u unfolding u_def fdiv_def by linarith
  then show ?thesis by (simp add: e_def)
qed

lemma hue_near:
  assumes e: "e = 1 / 2 ^ 44"
    and a: "\<bar>a - xa\<bar> \<le> e" and c: "\<bar>c - xc\<bar> \<le> e" and d: "\<bar>d - D\<bar> \<le> 3 * e"
    and D: "1 / 255 \<le> D" "D \<le> 1" and ac: "\<bar>xa - xc\<bar> \<le> D" and k: "0 \<le> k" "k \<le> 6"
  shows "\<bar>of_int (js_round (fmul (fdiv (fadd (fdiv (fsub a c) d) k) 6) 360)) -
      360 * (((xa - xc) / D + k) / 6)\<bar> \<le> 1/2 + 1 / 1000000"
proof -
  have e0: "0 < e" "e \<le> 1 / 1000000000000" by (simp_all add: e)
  have near: "\<bar>fl x - x\<bar> \<le> e" if "\<bar>x\<bar> \<le> 512" for x
    using fl_error_512[OF that] by (simp add: e)
  define \<rho> where "\<rho> = (xa - xc) / D"
  define x where "x = fsub a c"
  define y0 where "y0 = fdiv x d"
  define y1 where "y1 = fadd y0 k"
  define y2 where "y2 = fdiv y1 6"
  define y3 where "y3 = fmul y2 360"
  have D0: "0 < D" using D by linarith
  have "\<bar>\<rho>\<bar> = \<bar>xa - xc\<bar> / D" unfolding \<rho>_def using D0 by (simp add: abs_divide)
  also have "\<dots> \<le> 1" using ac D0 by simp
  finally have \<rho>: "\<bar>\<rho>\<bar> \<le> 1" .
  have "\<bar>a - c\<bar> \<le> 512" using a c ac D e0 by linarith
  from near[OF this] have "\<bar>x - (xa - xc)\<bar> \<le> 3 * e" using a c unfolding x_def fsub_def by linarith
  then have 1: "\<bar>x - (xa - xc)\<bar> \<le> 4 / 2 ^ 44" using e0 by (simp add: e)
  have 2: "\<bar>d - D\<bar> \<le> 4 / 2 ^ 44" using d e0 by (simp add: e)
  have "\<bar>y0 - \<rho>\<bar> \<le> 2049 / 2 ^ 44" unfolding y0_def \<rho>_def using 1 2 D(1) ac by (rule ratio_near)
  then have y0: "\<bar>y0 - \<rho>\<bar> \<le> 2049 * e" by (simp add: e)
  define T where "T = \<rho> + k"
  have T: "\<bar>T\<bar> \<le> 7" unfolding T_def using \<rho> k by linarith
  have "\<bar>y0 + k\<bar> \<le> 512" using y0 \<rho> k e0 by linarith
  from near[OF this] have y1: "\<bar>y1 - T\<bar> \<le> 2050 * e"
    using y0 unfolding y1_def fadd_def T_def by linarith
  have "\<bar>y1 / 6\<bar> \<le> 512" using y1 T e0 by linarith
  from near[OF this] have y2: "\<bar>y2 - T / 6\<bar> \<le> 343 * e"
    using y1 unfolding y2_def fdiv_def by linarith
  have "\<bar>y2 * 360\<bar> \<le> 512" using y2 T e0 by linarith
  from near[OF this] have y3: "\<bar>y3 - 60 * T\<bar> \<le> 123481 * e"
    using y2 unfolding y3_def fmul_def by linarith
  have "\<bar>of_int (js_round y3) - y3\<bar> \<le> 1/2" by (rule js_round_abs)
  with y3 have "\<bar>of_int (js_round y3) - 60 * T\<bar> \<le> 1/2 + 123481 * e" by linarith
  also have "\<dots> \<le> 1/2 + 1 / 1000000" using e0 by simp
  finally have "\<bar>of_int (js_round y3) - 60 * T\<bar> \<le> 1/2 + 1 / 1000000" .
  moreover have "60 * T = 360 * (((xa - xc) / D + k) / 6)" by (simp add: T_def \<rho>_def)
  ultimately show ?thesis by (simp only: y3_def y2_def y1_def y0_def x_def)
qed

lemma rgbToHsl_near:
  fixes L D S H :: rat
  assumes rng: "0 \<le> r0" "r0 \<le> 255" "0 \<le> g0" "g0 \<le> 255" "0 \<le> b0" "b0 \<le> 255"
    and M: "M = max r0 (max g0 b0)" and m: "m = min r0 (min g0 b0)" and lt: "m < M"
    and L: "L = of_int (M + m) / 510"
    and D: "D = of_int (M - m) / 255"
    and S: "S = D / (1 - \<bar>2 * L - 1\<bar>)"
    and H: "H = (if M = r0 then (of_int (g0 - b0) / of_int (M - m) + (if g0 < b0 then 6 else 0)) / 6
                 else if M = g0 then (of_int (b0 - r0) / of_int (M - m) + 2) / 6
                 else (of_int (r0 - g0) / of_int (M - m) + 4) / 6)"
  shows "\<bar>of_int (hsl_h (rgbToHsl r0 g0 b0)) - 360 * H\<bar> \<le> 1/2 + 1 / 1000000"
    "\<bar>of_int (hsl_s (rgbToHsl r0 g0 b0)) - 100 * S\<bar> \<le> 1/2 + 1 / 1000000"
    "\<bar>of_int (hsl_l (rgbToHsl r0 g0 b0)) - 100 * L\<bar> \<le> 1/2 + 1 / 1000000"
proof -
  define e :: rat where "e = 1 / 2 ^ 44"
  have e: "0 < e" "e \<le> 1 / 1000000000000" by (simp_all add: e_def)
  have near: "\<bar>fl x - x\<bar> \<le> e" if "\<bar>x\<bar> \<le> 512" for x
    using fl_error_512[OF that] by (simp add: e_def)
  define r where "r = fdiv (of_int r0) 255"
  define g where "g = fdiv (of_int g0) 255"
  define b where "b = fdiv (of_int b0) 255"
  define mx where "mx = max r (max g b)"
  define mn where "mn = min r (min g b)"
  define l where "l = fdiv (fadd mx mn) 2"
  define xr :: rat where "xr = of_int r0 / 255"
  define xg :: rat where "xg = of_int g0 / 255"
  define xb :: rat where "xb = of_int b0 / 255"
  define xM :: rat where "xM = of_int M / 255"
  define xm :: rat where "xm = of_int m / 255"
  have Mm: "0 \<le> m" "M \<le> 255" "0 \<le> M" "m \<le> 255"
    "m \<le> r0" "r0 \<le> M" "m \<le> g0" "g0 \<le> M" "m \<le> b0" "b0 \<le> M"
    using rng by (simp_all add: M m)
  have mxM: "mx = fdiv (of_int M) 255" by (simp add: mx_def r_def g_def b_def M channel_max)
  have mnm: "mn = fdiv (of_int m) 255" by (simp add: mn_def r_def g_def b_def m channel_min)
  have cn: "\<bar>r - xr\<bar> \<le> e" "\<bar>g - xg\<bar> \<le> e" "\<bar>b - xb\<bar> \<le> e"
    unfolding r_def g_def b_def xr_def xg_def xb_def e_def
    by (rule channel_near[OF rng(1,2)] channel_near[OF rng(3,4)] channel_near[OF rng(5,6)])+
  have mn': "\<bar>mx - xM\<bar> \<le> e" "\<bar>mn - xm\<bar> \<le> e"
    unfolding mxM mnm xM_def xm_def e_def
    by (rule channel_near[OF Mm(3,2)] channel_near[OF Mm(1,4)])+
  have "(of_int (m + 1) :: rat) \<le> of_int M" using lt by (simp only: of_int_le_iff)
  then have x1: "xm + 1 / 255 \<le> xM" by (simp add: xM_def xm_def)
  have x2: "0 \<le> xm" "xM \<le> 1" using Mm by (simp_all add: xM_def xm_def)
  have xx: "xm \<le> xr" "xr \<le> xM" "xm \<le> xg" "xg \<le> xM" "xm \<le> xb" "xb \<le> xM"
    using Mm by (simp_all add: xM_def xm_def xr_def xg_def xb_def)
  have L': "L = (xM + xm) / 2" by (simp add: L xM_def xm_def)
  have D': "D = xM - xm" by (simp add: D xM_def xm_def diff_divide_distrib)
  define L2 where "L2 = 2 * L"
  have L2: "L2 = xM + xm" by (simp add: L2_def L')
  define A where "A = fadd mx mn"
  have "\<bar>mx + mn\<bar> \<le> 512" using mn' x1 x2 e by linarith
  from near[OF this] have A: "\<bar>A - L2\<bar> \<le> 3 * e" using mn' unfolding A_def fadd_def L2 by linarith
  have "\<bar>A / 2\<bar> \<le> 512" using A x1 x2 e unfolding L2 by linarith
  from near[OF this] have ln: "\<bar>l - L2 / 2\<bar> \<le> 3 * e"
    using A e unfolding l_def fdiv_def A_def[symmetric] by linarith
  have L2b: "1 / 255 \<le> L2" "L2 \<le> 2" unfolding L2 using x1 x2 by linarith+
  have "\<bar>l * 100\<bar> \<le> 512" using ln L2b e by linarith
  from near[OF this] have "\<bar>fmul l 100 - 50 * L2\<bar> \<le> 301 * e"
    using ln unfolding fmul_def by linarith
  moreover have "\<bar>of_int (js_round (fmul l 100)) - fmul l 100\<bar> \<le> 1/2" by (rule js_round_abs)
  ultimately have "\<bar>of_int (js_round (fmul l 100)) - 50 * L2\<bar> \<le> 1/2 + 1 / 1000000"
    using e by linarith
  then have Lr: "\<bar>of_int (js_round (fmul l 100)) - 100 * L\<bar> \<le> 1/2 + 1 / 1000000"
    by (simp add: L2_def)
  have ne: "mx \<noteq> mn" using lt Mm by (simp add: mxM mnm channel_eq_iff)
  define d where "d = fsub mx mn"
  define s where "s = (if 1/2 < l then fdiv d (fsub (fsub 2 mx) mn) else fdiv d (fadd mx mn))"
  define h where "h = (if mx = r then fdiv (fadd (fdiv (fsub g b) d) (if g < b then 6 else 0)) 6
                 else if mx = g then fdiv (fadd (fdiv (fsub b r) d) 2) 6
                 else fdiv (fadd (fdiv (fsub r g) d) 4) 6)"
  have eq: "rgbToHsl r0 g0 b0 =
      \<lparr>hsl_h = js_round (fmul h 360), hsl_s = js_round (fmul s 100),
       hsl_l = js_round (fmul l 100)\<rparr>"
    using ne
    by (simp add: rgbToHsl_def Let_def r_def g_def b_def mx_def mn_def l_def d_def s_def h_def)
  have Db: "1 / 255 \<le> D" "D \<le> 1" using x1 x2 by (simp_all add: D')
  have "\<bar>mx - mn\<bar> \<le> 512" using mn' x1 x2 e by linarith
  from near[OF this] have dn: "\<bar>d - D\<bar> \<le> 3 * e"
    using mn' unfolding d_def fsub_def D' by linarith
  define W where "W = 1 - \<bar>L2 - 1\<bar>"
  have SW: "S = D / W" by (simp add: S W_def L2_def)
  have sn: "\<bar>s - S\<bar> \<le> 2049 * e"
  proof -
    define n where "n = (if 1/2 < l then fsub (fsub 2 mx) mn else fadd mx mn)"
    have se: "s = fdiv d n" by (simp add: s_def n_def)
    have nW: "\<bar>n - W\<bar> \<le> 4 * e"
    proof (cases "1/2 < l")
      case True
      have "\<not> M + m \<le> 254"
      proof
        assume "M + m \<le> 254"
        then have "(of_int (M + m) :: rat) \<le> of_int 254" by (simp only: of_int_le_iff)
        then have "L2 \<le> 254 / 255" by (simp add: L2 xM_def xm_def add_divide_distrib)
        with ln True e show False by linarith
      qed
      then have "255 \<le> M + m" by simp
      then have "(of_int 255 :: rat) \<le> of_int (M + m)" by (simp only: of_int_le_iff)
      then have "1 \<le> L2" by (simp add: L2 xM_def xm_def add_divide_distrib)
      then have W: "W = 2 - xM - xm" unfolding W_def L2 by linarith
      define B where "B = fsub 2 mx"
      have "\<bar>2 - mx\<bar> \<le> 512" using mn' x1 x2 e by linarith
      from near[OF this] have B: "\<bar>B - (2 - xM)\<bar> \<le> 2 * e"
        using mn' unfolding B_def fsub_def by linarith
      have "\<bar>B - mn\<bar> \<le> 512" using B mn' x1 x2 e by linarith
      from near[OF this] have "\<bar>fsub B mn - (2 - xM - xm)\<bar> \<le> 4 * e"
        using B mn' unfolding fsub_def by linarith
      then show ?thesis using True by (simp add: n_def B_def W)
    next
      case False
      have "\<not> 256 \<le> M + m"
      proof
        assume "256 \<le> M + m"
        then have "(of_int 256 :: rat) \<le> of_int (M + m)" by (simp only: of_int_le_iff)
        then have "256 / 255 \<le> L2" by (simp add: L2 xM_def xm_def add_divide_distrib)
        with ln False e show False by linarith
      qed
      then have "M + m \<le> 255" by simp
      then have "(of_int (M + m) :: rat) \<le> of_int 255" by (simp only: of_int_le_iff)
      then have "L2 \<le> 1" by (simp add: L2 xM_def xm_def add_divide_distrib)
      then have W: "W = L2" unfolding W_def L2 using x1 x2 by linarith
      show ?thesis using False A e by (simp add: n_def A_def W)
    qed
    have Wb: "1 / 255 \<le> W" "\<bar>D\<bar> \<le> W"
      unfolding W_def L2 D' using x1 x2 by linarith+
    have 1: "\<bar>d - D\<bar> \<le> 4 / 2 ^ 44" using dn e by (simp add: e_def)
    have 2: "\<bar>n - W\<bar> \<le> 4 / 2 ^ 44" using nW by (simp add: e_def)
    show ?thesis unfolding se SW using ratio_near[OF 1 2 Wb] by (simp add: e_def)
  qed
  have "\<bar>D\<bar> \<le> W" "0 < W" unfolding W_def L2 D' using x1 x2 by linarith+
  then have "\<bar>S\<bar> \<le> 1" unfolding SW by (simp add: abs_divide)
  then have "\<bar>s * 100\<bar> \<le> 512" using sn e by linarith
  from near[OF this] have "\<bar>fmul s 100 - 100 * S\<bar> \<le> 204901 * e"
    using sn unfolding fmul_def by linarith
  moreover have "\<bar>of_int (js_round (fmul s 100)) - fmul s 100\<bar> \<le> 1/2" by (rule js_round_abs)
  ultimately have Sr: "\<bar>of_int (js_round (fmul s 100)) - 100 * S\<bar> \<le> 1/2 + 1 / 1000000"
    using e by linarith
  have hu: "\<bar>of_int (js_round (fmul (fdiv (fadd (fdiv (fsub a c) d) k) 6) 360)) -
      360 * (((xa - xc) / D + k) / 6)\<bar> \<le> 1/2 + 1 / 1000000"
    if "\<bar>a - xa\<bar> \<le> e" "\<bar>c - xc\<bar> \<le> e" "xm \<le> xa" "xa \<le> xM" "xm \<le> xc" "xc \<le> xM"
      "0 \<le> k" "k \<le> 6" for a c xa xc k
  proof -
    have "\<bar>xa - xc\<bar> \<le> D" unfolding D' using that by linarith
    with e_def that(1,2) dn Db show ?thesis using that(7,8) by (rule hue_near)
  qed
  have q: "(of_int i / 255 - of_int j / 255) / D = (of_int (i - j) :: rat) / of_int (M - m)" for i j
    using lt by (simp add: D diff_divide_distrib)
  have c1: "mx = r \<longleftrightarrow> M = r0" using rng Mm by (simp add: mxM r_def channel_eq_iff)
  have c2: "mx = g \<longleftrightarrow> M = g0" using rng Mm by (simp add: mxM g_def channel_eq_iff)
  have c3: "g < b \<longleftrightarrow> g0 < b0" using rng by (simp add: g_def b_def channel_less_iff)
  have Hr: "\<bar>of_int (js_round (fmul h 360)) - 360 * H\<bar> \<le> 1/2 + 1 / 1000000"
  proof (cases "M = r0")
    case True
    show ?thesis
    proof (cases "g0 < b0")
      case lt: True
      have hh: "h = fdiv (fadd (fdiv (fsub g b) d) 6) 6" using True lt c1 c3 by (simp add: h_def)
      have HH: "H = ((xg - xb) / D + 6) / 6" using True lt by (simp add: H xg_def xb_def q)
      show ?thesis unfolding hh HH by (rule hu[OF cn(2,3) xx(3,4,5,6)]) simp_all
    next
      case ge: False
      have hh: "h = fdiv (fadd (fdiv (fsub g b) d) 0) 6" using True ge c1 c3 by (simp add: h_def)
      have HH: "H = ((xg - xb) / D + 0) / 6" using True ge by (simp add: H xg_def xb_def q)
      show ?thesis unfolding hh HH by (rule hu[OF cn(2,3) xx(3,4,5,6)]) simp_all
    qed
  next
    case nr: False
    show ?thesis
    proof (cases "M = g0")
      case True
      have hh: "h = fdiv (fadd (fdiv (fsub b r) d) 2) 6" using True nr c1 c2 by (simp add: h_def)
      have HH: "H = ((xb - xr) / D + 2) / 6" using True nr by (simp add: H xb_def xr_def q)
      show ?thesis unfolding hh HH by (rule hu[OF cn(3,1) xx(5,6,1,2)]) simp_all
    next
      case False
      have hh: "h = fdiv (fadd (fdiv (fsub r g) d) 4) 6" using False nr c1 c2 by (simp add: h_def)
      have HH: "H = ((xr - xg) / D + 4) / 6" using False nr by (simp add: H xr_def xg_def q)
      show ?thesis unfolding hh HH by (rule hu[OF cn(1,2) xx(1,2,3,4)]) simp_all
    qed
  qed
  show "\<bar>of_int (hsl_h (rgbToHsl r0 g0 b0)) - 360 * H\<bar> \<le> 1/2 + 1 / 1000000"
    "\<bar>of_int (hsl_s (rgbToHsl r0 g0 b0)) - 100 * S\<bar> \<le> 1/2 + 1 / 1000000"
    "\<bar>of_int (hsl_l (rgbToHsl r0 g0 b0)) - 100 * L\<bar> \<le> 1/2 + 1 / 1000000"
    using Hr Sr Lr by (simp_all add: eq)
qed

subsection \<open>The exact model inverts itself\<close>

lemma trapezoid_sextants:
  assumes "- 1 \<le> \<rho>" "\<rho> \<le> 1"
  shows "trapezoid ((\<rho> + 2) / 6) = 1"
    "trapezoid ((\<rho> + 4) / 6) = max 0 (- \<rho>)"
    "trapezoid (\<rho> / 6) = max 0 \<rho>"
    "trapezoid ((\<rho> + 2) / 6 + 1) = 1"
    "trapezoid ((\<rho> + 4) / 6 - 1) = max 0 (- \<rho>)"
    "trapezoid (\<rho> / 6 + 1) = max 0 \<rho>"
proof -
  show 1: "trapezoid ((\<rho> + 2) / 6) = 1" using assms by (intro trapezoid_top) simp_all
  show 2: "trapezoid ((\<rho> + 4) / 6) = max 0 (- \<rho>)"
  proof (cases "\<rho> \<le> 0")
    case True
    then have "trapezoid ((\<rho> + 4) / 6) = 4 - 6 * ((\<rho> + 4) / 6)"
      using assms by (intro trapezoid_fall) simp_all
    also have "\<dots> = - \<rho>" by (simp add: field_simps)
    finally show ?thesis using True by simp
  next
    case False
    then have "trapezoid ((\<rho> + 4) / 6) = 0" using assms by (intro trapezoid_bottom) simp_all
    then show ?thesis using False by simp
  qed
  have p: "trapezoid (\<rho> / 6 + 1) = trapezoid (\<rho> / 6)"
    using assms by (intro trapezoid_period) simp_all
  show 3: "trapezoid (\<rho> / 6) = max 0 \<rho>"
  proof (cases "0 \<le> \<rho>")
    case True
    then have "trapezoid (\<rho> / 6) = 6 * (\<rho> / 6)" using assms by (intro trapezoid_rise) simp_all
    also have "\<dots> = \<rho>" by simp
    finally show ?thesis using True by simp
  next
    case False
    then have "trapezoid (\<rho> / 6 + 1) = 0" using assms by (intro trapezoid_bottom) simp_all
    then show ?thesis using False p by simp
  qed
  show "trapezoid ((\<rho> + 2) / 6 + 1) = 1"
    using trapezoid_period[of "(\<rho> + 2) / 6"] 1 assms by simp
  have "trapezoid (((\<rho> + 4) / 6 - 1) + 1) = trapezoid ((\<rho> + 4) / 6 - 1)"
    using assms by (intro trapezoid_period) (simp_all add: field_simps)
  then show "trapezoid ((\<rho> + 4) / 6 - 1) = max 0 (- \<rho>)" using 2 by simp
  show "trapezoid (\<rho> / 6 + 1) = max 0 \<rho>" using p 3 by simp
qed

lemma sextant_channels:
  fixes xa xc xm D :: rat
  assumes "0 < D" "xm = min xa xc" "\<rho> = (xa - xc) / D"
  shows "xm + D * max 0 \<rho> = xa" "xm + D * max 0 (- \<rho>) = xc"
proof -
  have "D * \<rho> = xa - xc" using assms by simp
  moreover have "0 \<le> \<rho> \<longleftrightarrow> xc \<le> xa" using assms by (simp add: zero_le_divide_iff)
  ultimately show "xm + D * max 0 \<rho> = xa" "xm + D * max 0 (- \<rho>) = xc"
    using assms(2) by (auto simp: max_def min_def algebra_simps)
qed

lemma hsl_exact:
  fixes L D H :: rat
  assumes rng: "0 \<le> r0" "r0 \<le> 255" "0 \<le> g0" "g0 \<le> 255" "0 \<le> b0" "b0 \<le> 255"
    and M: "M = max r0 (max g0 b0)" and m: "m = min r0 (min g0 b0)" and lt: "m < M"
    and L: "L = of_int (M + m) / 510"
    and D: "D = of_int (M - m) / 255"
    and H: "H = (if M = r0 then (of_int (g0 - b0) / of_int (M - m) + (if g0 < b0 then 6 else 0)) / 6
                 else if M = g0 then (of_int (b0 - r0) / of_int (M - m) + 2) / 6
                 else (of_int (r0 - g0) / of_int (M - m) + 4) / 6)"
  shows "of_int r0 / 255 = L + D * (trapezoid (H + 1/3) - 1/2)"
    "of_int g0 / 255 = L + D * (trapezoid H - 1/2)"
    "of_int b0 / 255 = L + D * (trapezoid (H - 1/3) - 1/2)"
proof -
  define xr :: rat where "xr = of_int r0 / 255"
  define xg :: rat where "xg = of_int g0 / 255"
  define xb :: rat where "xb = of_int b0 / 255"
  define xM :: rat where "xM = of_int M / 255"
  define xm :: rat where "xm = of_int m / 255"
  have Mm: "r0 \<le> M" "g0 \<le> M" "b0 \<le> M" by (simp_all add: M)
  have xx: "xr \<le> xM" "xg \<le> xM" "xb \<le> xM"
    using Mm by (simp_all add: xM_def xr_def xg_def xb_def)
  have "(of_int m :: rat) < of_int M" using lt by (simp only: of_int_less_iff)
  then have x1: "xm < xM" by (simp add: xM_def xm_def)
  have L': "L = (xM + xm) / 2" by (simp add: L xM_def xm_def)
  have D': "D = xM - xm" by (simp add: D xM_def xm_def diff_divide_distrib)
  have D0: "0 < D" using x1 by (simp add: D')
  have base: "L + D * (\<tau> - 1/2) = xm + D * \<tau>" for \<tau>
    by (simp add: L' D' field_simps)
  have top: "xm + D * 1 = xM" by (simp add: D')
  have q: "(of_int i / 255 - of_int j / 255) / D = (of_int (i - j) :: rat) / of_int (M - m)" for i j
    using lt by (simp add: D diff_divide_distrib)
  have minx: "of_int (min i j) / 255 = min (of_int i / 255 :: rat) (of_int j / 255)" for i j
    by (simp add: min_def)
  have key: "xm + D * max 0 \<rho> = xa \<and> xm + D * max 0 (- \<rho>) = xc \<and> - 1 \<le> \<rho> \<and> \<rho> \<le> 1"
    if "\<rho> = (xa - xc) / D" "xm = min xa xc" "xa \<le> xM" "xc \<le> xM" for \<rho> xa xc
  proof -
    have "xm \<le> xa" "xm \<le> xc" using that(2) by simp_all
    then have "- D \<le> xa - xc" "xa - xc \<le> D" using that(3,4) unfolding D' by linarith+
    then have "- 1 \<le> \<rho>" "\<rho> \<le> 1" using D0 by (simp_all add: that(1) field_simps)
    then show ?thesis using sextant_channels[OF D0 that(2,1)] by simp
  qed
  have "xr = xm + D * trapezoid (H + 1/3) \<and> xg = xm + D * trapezoid H \<and>
      xb = xm + D * trapezoid (H - 1/3)"
  proof (cases "M = r0")
    case True
    define \<rho> where "\<rho> = (xg - xb) / D"
    have "m = min g0 b0" using True Mm by (simp add: m)
    then have "xm = min xg xb" by (simp add: xm_def xg_def xb_def minx)
    note k = key[OF \<rho>_def this xx(2,3)]
    have kb: "- 1 \<le> \<rho>" "\<rho> \<le> 1" using k by simp_all
    note ts = trapezoid_sextants[OF kb]
    have xMr: "xM = xr" using True by (simp add: xM_def xr_def)
    show ?thesis
    proof (cases "g0 < b0")
      case lt: True
      have HH: "H = (\<rho> + 6) / 6" using True lt by (simp add: H \<rho>_def xg_def xb_def q)
      have a: "H + 1/3 = (\<rho> + 2) / 6 + 1" "H = \<rho> / 6 + 1" "H - 1/3 = (\<rho> + 4) / 6"
        by (simp_all add: HH field_simps)
      have "trapezoid (H + 1/3) = 1" unfolding a(1) by (rule ts(4))
      moreover have "trapezoid H = max 0 \<rho>" unfolding a(2) by (rule ts(6))
      moreover have "trapezoid (H - 1/3) = max 0 (- \<rho>)" unfolding a(3) by (rule ts(2))
      ultimately show ?thesis using k top xMr by simp
    next
      case ge: False
      have HH: "H = \<rho> / 6" using True ge by (simp add: H \<rho>_def xg_def xb_def q)
      have a: "H + 1/3 = (\<rho> + 2) / 6" "H - 1/3 = (\<rho> + 4) / 6 - 1"
        by (simp_all add: HH field_simps)
      have "trapezoid (H + 1/3) = 1" unfolding a(1) by (rule ts(1))
      moreover have "trapezoid H = max 0 \<rho>" unfolding HH by (rule ts(3))
      moreover have "trapezoid (H - 1/3) = max 0 (- \<rho>)" unfolding a(2) by (rule ts(5))
      ultimately show ?thesis using k top xMr by simp
    qed
  next
    case nr: False
    show ?thesis
    proof (cases "M = g0")
      case True
      define \<rho> where "\<rho> = (xb - xr) / D"
      have "m = min b0 r0" using True Mm by (simp add: m min.commute min.left_commute)
      then have "xm = min xb xr" by (simp add: xm_def xr_def xb_def minx)
      note k = key[OF \<rho>_def this xx(3,1)]
      have kb: "- 1 \<le> \<rho>" "\<rho> \<le> 1" using k by simp_all
      note ts = trapezoid_sextants[OF kb]
      have xMg: "xM = xg" using True by (simp add: xM_def xg_def)
      have HH: "H = (\<rho> + 2) / 6" using True nr by (simp add: H \<rho>_def xr_def xb_def q)
      have a: "H + 1/3 = (\<rho> + 4) / 6" "H - 1/3 = \<rho> / 6"
        by (simp_all add: HH field_simps)
      have "trapezoid (H + 1/3) = max 0 (- \<rho>)" unfolding a(1) by (rule ts(2))
      moreover have "trapezoid H = 1" unfolding HH by (rule ts(1))
      moreover have "trapezoid (H - 1/3) = max 0 \<rho>" unfolding a(2) by (rule ts(3))
      ultimately show ?thesis using k top xMg by simp
    next
      case False
      then have Mb: "M = b0" using nr by (simp add: M max_def split: if_splits)
      define \<rho> where "\<rho> = (xr - xg) / D"
      have "m = min r0 g0" using Mb Mm by (simp add: m min.assoc[symmetric])
      then have "xm = min xr xg" by (simp add: xm_def xr_def xg_def minx)
      note k = key[OF \<rho>_def this xx(1,2)]
      have kb: "- 1 \<le> \<rho>" "\<rho> \<le> 1" using k by simp_all
      note ts = trapezoid_sextants[OF kb]
      have xMb: "xM = xb" using Mb by (simp add: xM_def xb_def)
      have HH: "H = (\<rho> + 4) / 6" using False nr by (simp add: H \<rho>_def xr_def xg_def q)
      have a: "H + 1/3 = \<rho> / 6 + 1" "H - 1/3 = (\<rho> + 2) / 6"
        by (simp_all add: HH field_simps)
      have "trapezoid (H + 1/3) = max 0 \<rho>" unfolding a(1) by (rule ts(6))
      moreover have "trapezoid H = max 0 (- \<rho>)" unfolding HH by (rule ts(2))
      moreover have "trapezoid (H - 1/3) = 1" unfolding a(2) by (rule ts(1))
      ultimately show ?thesis using k top xMb by simp
    qed
  qed
  then show "of_int r0 / 255 = L + D * (trapezoid (H + 1/3) - 1/2)"
    "of_int g0 / 255 = L + D * (trapezoid H - 1/2)"
    "of_int b0 / 255 = L + D * (trapezoid (H - 1/3) - 1/2)"
    by (simp_all only: base xr_def[symmetric] xg_def[symmetric] xb_def[symmetric])
qed

subsection \<open>The cost of the three roundings\<close>

lemma hsl_perturbation:
  fixes l L s S t T el es et :: rat
  assumes l: "\<bar>l - L\<bar> \<le> el" and s: "\<bar>s - S\<bar> \<le> es" and t: "\<bar>t - T\<bar> \<le> et"
    and rng: "0 \<le> L" "L \<le> 1" "0 \<le> s" "s \<le> 1" "0 \<le> S" "S \<le> 1"
  shows "\<bar>(l + (1 - \<bar>2 * l - 1\<bar>) * s * (trapezoid t - 1/2)) -
      (L + (1 - \<bar>2 * L - 1\<bar>) * S * (trapezoid T - 1/2))\<bar> \<le> 2 * el + es / 2 + 6 * et"
proof -
  define W2 where "W2 = 1 - \<bar>2 * l - 1\<bar>"
  define W where "W = 1 - \<bar>2 * L - 1\<bar>"
  define g2 where "g2 = trapezoid t - 1/2"
  define g where "g = trapezoid T - 1/2"
  define E1 where "E1 = (W2 - W) * s"
  define E2 where "E2 = W * (s - S)"
  define F1 where "F1 = (E1 + E2) * g2"
  define F2 where "F2 = W * S * (g2 - g)"
  have el0: "0 \<le> el" and es0: "0 \<le> es" using l s by linarith+
  have WW: "\<bar>W2 - W\<bar> \<le> 2 * el" unfolding W2_def W_def using l by linarith
  have W: "0 \<le> W" "W \<le> 1" unfolding W_def using rng(1,2) by linarith+
  have sa: "\<bar>s\<bar> \<le> 1" using rng by linarith
  have "\<bar>E1\<bar> \<le> 2 * el * 1" unfolding E1_def using WW sa by (rule abs_product_le)
  then have E1: "\<bar>E1\<bar> \<le> 2 * el" by simp
  have "\<bar>W\<bar> \<le> 1" using W by linarith
  then have "\<bar>E2\<bar> \<le> 1 * es" unfolding E2_def using s by (rule abs_product_le)
  then have E2: "\<bar>E2\<bar> \<le> es" by simp
  define k where "k = 2 * el + es"
  have E12: "\<bar>E1 + E2\<bar> \<le> k" unfolding k_def using E1 E2 by linarith
  have g2: "\<bar>g2\<bar> \<le> 1/2" unfolding g2_def using trapezoid_range[of t] by linarith
  have "\<bar>F1\<bar> \<le> k * (1/2)" unfolding F1_def using E12 g2 by (rule abs_product_le)
  then have F1: "\<bar>F1\<bar> \<le> el + es / 2" by (simp add: k_def)
  have "\<bar>trapezoid t - trapezoid T\<bar> \<le> 6 * \<bar>t - T\<bar>" by (rule trapezoid_lipschitz)
  also have "\<dots> \<le> 6 * et" using t by simp
  finally have gg: "\<bar>g2 - g\<bar> \<le> 6 * et" by (simp add: g2_def g_def)
  have "0 \<le> W * S" using W rng by (intro mult_nonneg_nonneg)
  moreover have "W * S \<le> 1" using W rng by (intro mult_le_one)
  ultimately have "\<bar>W * S\<bar> \<le> 1" by linarith
  then have "\<bar>F2\<bar> \<le> 1 * (6 * et)" unfolding F2_def using gg by (rule abs_product_le)
  then have F2: "\<bar>F2\<bar> \<le> 6 * et" by simp
  have "(l + W2 * s * g2) - (L + W * S * g) = (l - L) + F1 + F2"
    by (simp add: F1_def F2_def E1_def E2_def algebra_simps)
  moreover have "\<bar>(l - L) + F1 + F2\<bar> \<le> 2 * el + es / 2 + 6 * et" using l F1 F2 by linarith
  ultimately show ?thesis by (simp only: W2_def W_def g2_def g_def)
qed

lemma hsl_exact_range:
  fixes L D S :: rat
  assumes rng: "0 \<le> r0" "r0 \<le> 255" "0 \<le> g0" "g0 \<le> 255" "0 \<le> b0" "b0 \<le> 255"
    and M: "M = max r0 (max g0 b0)" and m: "m = min r0 (min g0 b0)" and lt: "m < M"
    and L: "L = of_int (M + m) / 510"
    and D: "D = of_int (M - m) / 255"
    and S: "S = D / (1 - \<bar>2 * L - 1\<bar>)"
  shows "0 \<le> L" "L \<le> 1" "0 \<le> S" "S \<le> 1" "D = (1 - \<bar>2 * L - 1\<bar>) * S"
proof -
  define xM :: rat where "xM = of_int M / 255"
  define xm :: rat where "xm = of_int m / 255"
  define L2 where "L2 = 2 * L"
  define W where "W = 1 - \<bar>L2 - 1\<bar>"
  have Mm: "0 \<le> m" "M \<le> 255" using rng by (simp_all add: M m)
  have "(of_int (m + 1) :: rat) \<le> of_int M" using lt by (simp only: of_int_le_iff)
  then have x1: "xm + 1 / 255 \<le> xM" by (simp add: xM_def xm_def)
  have x2: "0 \<le> xm" "xM \<le> 1" using Mm by (simp_all add: xM_def xm_def)
  have L2: "L2 = xM + xm" by (simp add: L2_def L xM_def xm_def)
  have D': "D = xM - xm" by (simp add: D xM_def xm_def diff_divide_distrib)
  have "0 \<le> L2" "L2 \<le> 2" unfolding L2 using x1 x2 by linarith+
  then show "0 \<le> L" "L \<le> 1" by (simp_all add: L2_def)
  have W: "1 / 255 \<le> W" "D \<le> W" "0 \<le> D" unfolding W_def L2 D' using x1 x2 by linarith+
  then have W0: "0 < W" by linarith
  have SW: "S = D / W" by (simp add: S W_def L2_def)
  show "0 \<le> S" "S \<le> 1" using W W0 by (simp_all add: SW)
  have "D = W * S" using W0 by (simp add: SW)
  then show "D = (1 - \<bar>2 * L - 1\<bar>) * S" by (simp add: W_def L2_def)
qed

lemma grey_round_trip:
  assumes "0 \<le> v" "v \<le> 255"
  shows "hsl_h (rgbToHsl v v v) = 0" "hsl_s (rgbToHsl v v v) = 0"
    "\<bar>js_round (fmul (fdiv (of_int (hsl_l (rgbToHsl v v v))) 100) 255) - v\<bar> \<le> 1"
proof -
  show "hsl_h (rgbToHsl v v v) = 0" "hsl_s (rgbToHsl v v v) = 0"
    by (simp_all add: rgbToHsl_def Let_def fmul_def fl_zero js_round_def floor_rat_numeral)
  define e :: rat where "e = 1 / 2 ^ 44"
  have e: "0 < e" "e \<le> 1 / 1000000" by (simp_all add: e_def)
  define w :: rat where "w = of_int v"
  have w: "0 \<le> w" "w \<le> 255" using assms by (simp_all add: w_def)
  define x where "x = fdiv w 255"
  define a where "a = fadd x x"
  define l where "l = fdiv a 2"
  define m where "m = fmul l 100"
  define L where "L = js_round m"
  define l' where "l' = fdiv (of_int L) 100"
  define c where "c = fmul l' 255"
  have 1: "\<bar>x - w / 255\<bar> \<le> e"
    unfolding x_def fdiv_def e_def using w by (intro fl_error_512) linarith
  then have x: "w / 255 - e \<le> x" "x \<le> w / 255 + e" by linarith+
  have "\<bar>a - (x + x)\<bar> \<le> e"
    unfolding a_def fadd_def e_def using x w e by (intro fl_error_512) linarith
  with x have a: "2 * w / 255 - 3 * e \<le> a" "a \<le> 2 * w / 255 + 3 * e" by linarith+
  have "\<bar>l - a / 2\<bar> \<le> e"
    unfolding l_def fdiv_def e_def using a w e by (intro fl_error_512) linarith
  with a have l: "w / 255 - 3 * e \<le> l" "l \<le> w / 255 + 3 * e" by linarith+
  have "\<bar>m - l * 100\<bar> \<le> e"
    unfolding m_def fmul_def e_def using l w e by (intro fl_error_512) linarith
  with l have m: "100 * w / 255 - 301 * e \<le> m" "m \<le> 100 * w / 255 + 301 * e" by linarith+
  have "of_int L \<le> m + 1/2" "m - 1/2 < of_int L"
    unfolding L_def by (rule js_round_bounds)+
  with m have L: "100 * w / 255 - 301 * e - 1/2 < of_int L"
    "of_int L \<le> 100 * w / 255 + 301 * e + 1/2" by linarith+
  have "\<bar>l' - of_int L / 100\<bar> \<le> e"
    unfolding l'_def fdiv_def e_def using L w e by (intro fl_error_512) linarith
  with L have l': "w / 255 - 5 * e - 1/200 < l'" "l' \<le> w / 255 + 5 * e + 1/200"
    by linarith+
  have "\<bar>c - l' * 255\<bar> \<le> e"
    unfolding c_def fmul_def e_def using l' w e by (intro fl_error_512) linarith
  with l' have c: "w - 1276 * e - 255/200 < c" "c \<le> w + 1276 * e + 255/200"
    by linarith+
  have "of_int (js_round c) \<le> c + 1/2" "c - 1/2 < of_int (js_round c)"
    by (rule js_round_bounds)+
  with c e have "of_int (js_round c) < w + 2" "w - 2 < of_int (js_round c)"
    by linarith+
  then have "(of_int (js_round c) :: rat) < of_int (v + 2)"
    "(of_int (v - 2) :: rat) < of_int (js_round c)"
    by (simp_all add: w_def)
  then have "js_round c < v + 2" "v - 2 < js_round c"
    by (simp_all only: of_int_less_iff)
  then have r: "\<bar>js_round c - v\<bar> \<le> 1" by simp
  have "rgbToHsl v v v = \<lparr>hsl_h = 0, hsl_s = 0, hsl_l = L\<rparr>"
    by (simp add: rgbToHsl_def Let_def L_def m_def l_def a_def x_def w_def fmul_def fl_zero
        js_round_def floor_rat_numeral)
  then show "\<bar>js_round (fmul (fdiv (of_int (hsl_l (rgbToHsl v v v))) 100) 255) - v\<bar> \<le> 1"
    using r by (simp add: c_def l'_def)
qed

lemma hslToRgb_grey:
  "hslToRgb 0 0 l0 =
    (let n = js_round (fmul (fdiv l0 100) 255) in \<lparr>rgb_r = n, rgb_g = n, rgb_b = n\<rparr>)"
  by (simp add: hslToRgb_def Let_def fdiv_def fl_zero)

lemma channel_within_five:
  fixes X :: rat
  assumes "\<bar>of_int n - 255 * X\<bar> \<le> 1/2 + 1 / 1000000"
    and "\<bar>X - of_int c / 255\<bar> \<le> 20865 / 1000000"
  shows "\<bar>n - c\<bar> \<le> 5"
proof -
  define x :: rat where "x = of_int c / 255"
  have c: "of_int c = 255 * x" by (simp add: x_def)
  have "\<bar>X - x\<bar> \<le> 20865 / 1000000" using assms(2) by (simp add: x_def)
  with assms(1) have "\<bar>of_int n - 255 * x\<bar> < 6" by linarith
  then have "\<bar>(of_int (n - c) :: rat)\<bar> < of_int 6" by (simp add: c)
  then have "(of_int \<bar>n - c\<bar> :: rat) < of_int 6" by (simp only: of_int_abs)
  then have "\<bar>n - c\<bar> < 6" by (simp only: of_int_less_iff)
  then show ?thesis by simp
qed

text \<open>
  C6. Converting a color to HSL and back does not reproduce every color within one unit
  per channel: the three HSL components are rounded to integers, and \<open>(0, 0, 125)\<close>
  becomes \<open>(240, 100, 25)\<close> and returns as \<open>(0, 0, 128)\<close>.
\<close>

theorem round_trip_counterexample:
  "rgbToHsl 0 0 125 = \<lparr>hsl_h = 240, hsl_s = 100, hsl_l = 25\<rparr> \<and>
   hslToRgb 240 100 25 = \<lparr>rgb_r = 0, rgb_g = 0, rgb_b = 128\<rparr> \<and>
   \<not> \<bar>rgb_b (hslToRgb (of_int (hsl_h (rgbToHsl 0 0 125))) (of_int (hsl_s (rgbToHsl 0 0 125)))
        (of_int (hsl_l (rgbToHsl 0 0 125)))) - 125\<bar> \<le> 1"
  by (simp add: rt_hsl rt_rgb)

text \<open>
  C6, as amended. For channels in 0..255 the round trip returns every channel within five
  units of the original. Five is reached: \<open>(2, 228, 230)\<close> becomes \<open>(181, 98, 45)\<close> and
  returns as \<open>(2, 223, 227)\<close>.
\<close>

theorem round_trip_within_five:
  assumes "0 \<le> r0" "r0 \<le> 255" "0 \<le> g0" "g0 \<le> 255" "0 \<le> b0" "b0 \<le> 255"
  shows
    "\<bar>rgb_r (hslToRgb (of_int (hsl_h (rgbToHsl r0 g0 b0))) (of_int (hsl_s (rgbToHsl r0 g0 b0)))
        (of_int (hsl_l (rgbToHsl r0 g0 b0)))) - r0\<bar> \<le> 5 \<and>
     \<bar>rgb_g (hslToRgb (of_int (hsl_h (rgbToHsl r0 g0 b0))) (of_int (hsl_s (rgbToHsl r0 g0 b0)))
        (of_int (hsl_l (rgbToHsl r0 g0 b0)))) - g0\<bar> \<le> 5 \<and>
     \<bar>rgb_b (hslToRgb (of_int (hsl_h (rgbToHsl r0 g0 b0))) (of_int (hsl_s (rgbToHsl r0 g0 b0)))
        (of_int (hsl_l (rgbToHsl r0 g0 b0)))) - b0\<bar> \<le> 5"
proof -
  define M where "M = max r0 (max g0 b0)"
  define m where "m = min r0 (min g0 b0)"
  show ?thesis
  proof (cases "m < M")
    case False
    have "m \<le> r0" "r0 \<le> M" "m \<le> g0" "g0 \<le> M" "m \<le> b0" "b0 \<le> M"
      by (simp_all add: M_def m_def)
    with False have eq: "g0 = r0" "b0 = r0" by linarith+
    show ?thesis unfolding eq using grey_round_trip[OF assms(1,2)]
      by (simp add: hslToRgb_grey Let_def)
  next
    case True
    define L :: rat where "L = of_int (M + m) / 510"
    define D :: rat where "D = of_int (M - m) / 255"
    define S where "S = D / (1 - \<bar>2 * L - 1\<bar>)"
    define H :: rat where
      "H = (if M = r0 then (of_int (g0 - b0) / of_int (M - m) + (if g0 < b0 then 6 else 0)) / 6
            else if M = g0 then (of_int (b0 - r0) / of_int (M - m) + 2) / 6
            else (of_int (r0 - g0) / of_int (M - m) + 4) / 6)"
    define hi where "hi = hsl_h (rgbToHsl r0 g0 b0)"
    define si where "si = hsl_s (rgbToHsl r0 g0 b0)"
    define li where "li = hsl_l (rgbToHsl r0 g0 b0)"
    define h :: rat where "h = of_int hi / 360"
    define s :: rat where "s = of_int si / 100"
    define l :: rat where "l = of_int li / 100"
    note near = rgbToHsl_near[OF assms M_def m_def True L_def D_def S_def H_def,
        folded hi_def si_def li_def]
    note exact = hsl_exact[OF assms M_def m_def True L_def D_def H_def]
    note rng = hsl_exact_range[OF assms M_def m_def True L_def D_def S_def]
    have ir: "0 \<le> hi" "hi \<le> 360" "0 \<le> si" "si \<le> 100" "0 \<le> li" "li \<le> 100"
      using rgbToHsl_range[OF assms] by (simp_all add: hi_def si_def li_def)
    have rr: "(0::rat) \<le> of_int hi" "(of_int hi :: rat) \<le> 360" "(0::rat) \<le> of_int si"
      "(of_int si :: rat) \<le> 100" "(0::rat) \<le> of_int li" "(of_int li :: rat) \<le> 100"
      using ir by simp_all
    note inv = hslToRgb_near[OF rr h_def s_def l_def refl]
    have i: "of_int hi = 360 * h" "of_int si = 100 * s" "of_int li = 100 * l"
      by (simp_all add: h_def s_def l_def)
    have hn: "\<bar>h - H\<bar> \<le> 139 / 100000" using near(1) unfolding i by linarith
    have sn: "\<bar>s - S\<bar> \<le> 501 / 100000" using near(2) unfolding i by linarith
    have ln: "\<bar>l - L\<bar> \<le> 501 / 100000" using near(3) unfolding i by linarith
    have sb: "0 \<le> s" "s \<le> 1" using rr by (simp_all add: s_def)
    have p: "\<bar>(l + (1 - \<bar>2 * l - 1\<bar>) * s * (trapezoid t - 1/2)) -
        (L + D * (trapezoid T - 1/2))\<bar> \<le> 20865 / 1000000"
      if "\<bar>t - T\<bar> \<le> 139 / 100000" for t T
      using hsl_perturbation[OF ln sn that rng(1,2) sb rng(3,4)] by (simp add: rng(5))
    have t: "\<bar>(h + 1/3) - (H + 1/3)\<bar> \<le> 139 / 100000" "\<bar>(h - 1/3) - (H - 1/3)\<bar> \<le> 139 / 100000"
      using hn by simp_all
    have "\<bar>rgb_r (hslToRgb (of_int hi) (of_int si) (of_int li)) - r0\<bar> \<le> 5"
      using inv(1) p[OF t(1)] unfolding exact(1)[symmetric] by (rule channel_within_five)
    moreover have "\<bar>rgb_g (hslToRgb (of_int hi) (of_int si) (of_int li)) - g0\<bar> \<le> 5"
      using inv(2) p[OF hn] unfolding exact(2)[symmetric] by (rule channel_within_five)
    moreover have "\<bar>rgb_b (hslToRgb (of_int hi) (of_int si) (of_int li)) - b0\<bar> \<le> 5"
      using inv(3) p[OF t(2)] unfolding exact(3)[symmetric] by (rule channel_within_five)
    ultimately show ?thesis by (simp add: hi_def si_def li_def)
  qed
qed

theorem round_trip_within_five_witness:
  "(0::int) \<le> 2 \<and> (2::int) \<le> 255 \<and> (0::int) \<le> 228 \<and> (228::int) \<le> 255 \<and>
   (0::int) \<le> 230 \<and> (230::int) \<le> 255 \<and>
   rgbToHsl 2 228 230 = \<lparr>hsl_h = 181, hsl_s = 98, hsl_l = 45\<rparr> \<and>
   hslToRgb 181 98 45 = \<lparr>rgb_r = 2, rgb_g = 223, rgb_b = 227\<rparr> \<and>
   \<bar>rgb_g (hslToRgb (of_int (hsl_h (rgbToHsl 2 228 230))) (of_int (hsl_s (rgbToHsl 2 228 230)))
        (of_int (hsl_l (rgbToHsl 2 228 230)))) - 228\<bar> = 5"
  using round_trip_within_five[of 2 228 230] by (simp add: worst_hsl worst_rgb)

section \<open>The divisions of \<open>rgbToHsl\<close>\<close>

text \<open>
  HOL's division by zero is zero, JavaScript's is not a finite number. On channels in
  0..255 no divisor of \<open>rgbToHsl\<close> is zero, so the two never meet: the difference
  \<open>max - min\<close>, the sum \<open>max + min\<close> and \<open>2 - max - min\<close> are nonzero whenever the
  chromatic branch is taken. The other divisors of the program are the constants 255, 360,
  100, 90, 70, 6, 3 and 2.
\<close>

lemma unit_channel:
  assumes "0 \<le> i" "i \<le> 255"
  shows "fdiv (of_int i) 255 = 1 \<or> (0 \<le> fdiv (of_int i) 255 \<and> fdiv (of_int i) 255 \<le> 997 / 1000)"
proof (cases "i = 255")
  case True
  have "fl (of_int 1) = of_int 1" by (rule fl_of_int) simp
  with True show ?thesis by (simp add: fdiv_def)
next
  case False
  define x :: rat where "x = of_int i / 255"
  have "i \<le> 254" using assms False by simp
  then have "(of_int i :: rat) \<le> of_int 254" by (simp only: of_int_le_iff)
  then have "(of_int i :: rat) \<le> 254" by simp
  moreover have "(0::rat) \<le> of_int i" using assms by simp
  ultimately have x: "0 \<le> x" "x \<le> 254 / 255" by (simp_all add: x_def)
  then have "\<bar>x\<bar> \<le> 512" by linarith
  then have "\<bar>fl x - x\<bar> \<le> 1 / 2 ^ 44" by (rule fl_error_512)
  moreover have "(1::rat) / 2 ^ 44 \<le> 1 / 10000" by simp
  ultimately have "fl x \<le> 997 / 1000" using x by linarith
  moreover have "0 \<le> fl x" using x by (intro fl_nonneg)
  ultimately show ?thesis by (simp add: fdiv_def x_def)
qed

lemma rgbToHsl_divisors_nonzero:
  assumes "0 \<le> r0" "r0 \<le> 255" "0 \<le> g0" "g0 \<le> 255" "0 \<le> b0" "b0 \<le> 255"
    and "r = fdiv (of_int r0) 255" "g = fdiv (of_int g0) 255" "b = fdiv (of_int b0) 255"
    and "mx = max r (max g b)" "mn = min r (min g b)" "mx \<noteq> mn"
  shows "fsub mx mn \<noteq> 0 \<and> fadd mx mn \<noteq> 0 \<and> fsub (fsub 2 mx) mn \<noteq> 0"
proof -
  have u: "x = 1 \<or> (0 \<le> x \<and> x \<le> 997 / 1000)" if "x = r \<or> x = g \<or> x = b" for x
    using that unit_channel[OF assms(1,2)] unit_channel[OF assms(3,4)]
      unit_channel[OF assms(5,6)] assms(7,8,9) by auto
  have "mx = r \<or> mx = g \<or> mx = b" "mn = r \<or> mn = g \<or> mn = b"
    unfolding assms(10,11) by (auto simp: max_def min_def)
  then have mx: "mx = 1 \<or> (0 \<le> mx \<and> mx \<le> 997 / 1000)"
    and mn: "mn = 1 \<or> (0 \<le> mn \<and> mn \<le> 997 / 1000)" using u by blast+
  have le: "mn \<le> mx" unfolding assms(10,11) by (auto simp: max_def min_def)
  with assms(12) have lt: "mn < mx" by simp
  with mx mn have b: "0 \<le> mn" "mn \<le> 997 / 1000" "0 < mx" "mx \<le> 1" by auto
  have 1: "fsub mx mn \<noteq> 0" using lt by (simp add: fsub_def fl_eq_0_iff)
  have 2: "fadd mx mn \<noteq> 0" using b by (simp add: fadd_def fl_eq_0_iff)
  have "\<bar>2 - mx\<bar> \<le> 512" using b by linarith
  then have "\<bar>fl (2 - mx) - (2 - mx)\<bar> \<le> 1 / 2 ^ 44" by (rule fl_error_512)
  moreover have "(1::rat) / 2 ^ 44 \<le> 1 / 10000" by simp
  ultimately have "mn < fl (2 - mx)" using b by linarith
  then have 3: "fsub (fsub 2 mx) mn \<noteq> 0" by (simp add: fsub_def fl_eq_0_iff)
  from 1 2 3 show ?thesis by blast
qed

end
